theory Spec2Isabelle
  imports Main "HOL-Library.Word" "HOL-Library.AList"
begin

unbundle bit_operations_syntax

section \<open>Bytes and the standard library functions the code calls\<close>

type_synonym byte = "8 word"
type_synonym uint32 = "32 word"
type_synonym uint64 = "64 word"

text \<open>
  \<^verbatim>\<open>bytes.Compare(a, b)\<close> of the Go standard library: the lexicographic comparison of
  two byte slices, \<open>- 1\<close>, \<open>0\<close> or \<open>1\<close>; a nil slice is an empty one.
\<close>

fun bytes_Compare :: "byte list \<Rightarrow> byte list \<Rightarrow> int" where
  "bytes_Compare [] [] = 0"
| "bytes_Compare [] (y # ys) = - 1"
| "bytes_Compare (x # xs) [] = 1"
| "bytes_Compare (x # xs) (y # ys) =
     (if x < y then - 1 else if y < x then 1 else bytes_Compare xs ys)"

text \<open>
  \<^verbatim>\<open>copy(dst, src)\<close>: the first \<open>min (len dst) (len src)\<close> elements of \<open>dst\<close> are
  overwritten.
\<close>

definition copy_bytes :: "byte list \<Rightarrow> byte list \<Rightarrow> byte list" where
  "copy_bytes dst src = take (length dst) src @ drop (length src) dst"

text \<open>
  \<^verbatim>\<open>binary.BigEndian.PutUint32(b, v)\<close> and \<^verbatim>\<open>binary.BigEndian.Uint32(b)\<close>: both panic
  (here \<open>None\<close>) on a slice shorter than four bytes.
\<close>

definition PutUint32 :: "byte list \<Rightarrow> uint32 \<Rightarrow> byte list option" where
  "PutUint32 b v =
     (if length b < 4 then None
      else Some (b[0 := ucast (drop_bit 24 v), 1 := ucast (drop_bit 16 v),
                   2 := ucast (drop_bit 8 v), 3 := ucast v]))"

definition Uint32 :: "byte list \<Rightarrow> uint32 option" where
  "Uint32 b =
     (if length b < 4 then None
      else Some (ucast (b ! 3) OR push_bit 8 (ucast (b ! 2)) OR
                 push_bit 16 (ucast (b ! 1)) OR push_bit 24 (ucast (b ! 0))))"

section \<open>Local identifiers (datastore package)\<close>

type_synonym InstanceID = uint32
type_synonym RepoID = uint32
type_synonym VersionID = uint32

text \<open>
  Modelled from the spec: the constant \<^verbatim>\<open>LocalID32Size\<close> is declared outside the files
  at hand; the specification fixes the width of a local identifier at 4 bytes.
\<close>

definition LocalID32Size :: nat where
  "LocalID32Size = 4"

definition InstanceID_Bytes :: "InstanceID \<Rightarrow> byte list option" where
  "InstanceID_Bytes v = PutUint32 (replicate LocalID32Size 0) v"

definition InstanceIDFromBytes :: "byte list \<Rightarrow> (InstanceID \<times> nat) option" where
  "InstanceIDFromBytes b = map_option (\<lambda>v. (v, LocalID32Size)) (Uint32 b)"

definition RepoID_Bytes :: "RepoID \<Rightarrow> byte list option" where
  "RepoID_Bytes v = PutUint32 (replicate LocalID32Size 0) v"

definition RepoIDFromBytes :: "byte list \<Rightarrow> (RepoID \<times> nat) option" where
  "RepoIDFromBytes b = map_option (\<lambda>v. (v, LocalID32Size)) (Uint32 b)"

definition VersionID_Bytes :: "VersionID \<Rightarrow> byte list option" where
  "VersionID_Bytes v = PutUint32 (replicate LocalID32Size 0) v"

definition VersionIDFromBytes :: "byte list \<Rightarrow> (VersionID \<times> nat) option" where
  "VersionIDFromBytes b = map_option (\<lambda>v. (v, LocalID32Size)) (Uint32 b)"

text \<open>The value a sequence of bytes denotes when read big-endian.\<close>

fun be_value :: "byte list \<Rightarrow> nat" where
  "be_value [] = 0"
| "be_value (b # bs) = unat b * 256 ^ length bs + be_value bs"

section \<open>Type-specific keys (storage package)\<close>

type_synonym Key = "byte list"
type_synonym TKey = "byte list"
type_synonym TKeyClass = byte

definition tkeyMinByte :: byte where "tkeyMinByte = 0x00"
definition tkeyStandardByte :: byte where "tkeyStandardByte = 0x01"
definition tkeyMaxByte :: byte where "tkeyMaxByte = 0xFF"
definition TKeyMinClass :: TKeyClass where "TKeyMinClass = 0x00"
definition TKeyMaxClass :: TKeyClass where "TKeyMaxClass = 0xFF"

text \<open>The body handed to \<^verbatim>\<open>NewTKey\<close> may be nil: \<open>None\<close>; \<^verbatim>\<open>len(nil)\<close> is 0.\<close>

definition len_slice :: "byte list option \<Rightarrow> nat" where
  "len_slice s = (case s of None \<Rightarrow> 0 | Some t \<Rightarrow> length t)"

definition NewTKey :: "TKeyClass \<Rightarrow> byte list option \<Rightarrow> TKey" where
  "NewTKey class tkey =
     (let b = replicate (2 + len_slice tkey) 0;
          b = b[0 := class];
          b = b[1 := tkeyStandardByte]
      in case tkey of
           None \<Rightarrow> b
         | Some t \<Rightarrow> take 2 b @ copy_bytes (drop 2 b) t)"

definition MinTKey :: "TKeyClass \<Rightarrow> TKey" where
  "MinTKey class = [class, tkeyMinByte]"

definition MaxTKey :: "TKeyClass \<Rightarrow> TKey" where
  "MaxTKey class = [class, tkeyMaxByte]"

record TKeyValue =
  K :: TKey
  V :: "byte list"

type_synonym TKeyValues = "TKeyValue list"

text \<open>
  \<^verbatim>\<open>TKeyValues.Less(i, j)\<close>; an index outside the slice panics (\<open>None\<close>).
\<close>

definition Less :: "TKeyValues \<Rightarrow> int \<Rightarrow> int \<Rightarrow> bool option" where
  "Less kv i j =
     (if 0 \<le> i \<and> i < int (length kv) \<and> 0 \<le> j \<and> j < int (length kv)
      then Some (bytes_Compare (K (kv ! nat i)) (K (kv ! nat j)) \<le> 0)
      else None)"


section \<open>Errors\<close>

text \<open>
  A Go \<^verbatim>\<open>error\<close>. The files at hand build theirs with \<^verbatim>\<open>fmt.Errorf\<close>: the format string
  and its arguments are kept, unrendered. The functions that live outside these files
  report the kinds of the specification's error taxonomy, with a message.
\<close>

datatype ErrorKind = OpenErrorKind | RegistryError | DatatypeUnavailable | CapabilityMissing
  | NotFound | AmbiguousUUID | LockViolation | Conflict | Cancelled | BackendError

datatype error = Errorf string "fmtarg list" | KindError ErrorKind string
  and fmtarg = ArgInt int | ArgString string | ArgErrorText error

section \<open>Instance sizes (storage package)\<close>

record KeyRange =
  Start :: Key
  OpenEnd :: Key

text \<open>The four bytes of a 32-bit identifier, most significant first.\<close>

definition be32 :: "uint32 \<Rightarrow> byte list" where
  "be32 v = [ucast (drop_bit 24 v), ucast (drop_bit 16 v), ucast (drop_bit 8 v), ucast v]"

text \<open>
  Modelled from the spec: \<^verbatim>\<open>constructDataKey\<close> and the tombstone keys are built outside the
  files at hand. The specification lays a data key out as
  \<open>[0x10 | InstanceID(4 BE) | VersionID(4 BE) | ClientID(4 BE) | TKey...]\<close> and a tombstone
  key as the same bytes behind \<open>0x11\<close>.
\<close>

definition dataKeyPrefix :: byte where "dataKeyPrefix = 0x10"
definition tombstoneKeyPrefix :: byte where "tombstoneKeyPrefix = 0x11"

definition constructDataKey :: "InstanceID \<Rightarrow> VersionID \<Rightarrow> uint32 \<Rightarrow> TKey \<Rightarrow> Key" where
  "constructDataKey i v c tk = dataKeyPrefix # be32 i @ be32 v @ be32 c @ tk"

definition constructTombstoneKey :: "InstanceID \<Rightarrow> VersionID \<Rightarrow> uint32 \<Rightarrow> TKey \<Rightarrow> Key" where
  "constructTombstoneKey i v c tk = tombstoneKeyPrefix # be32 i @ be32 v @ be32 c @ tk"

text \<open>
  Modelled from the spec: the package variable \<^verbatim>\<open>minTKey\<close> is declared outside the files at
  hand; it is the class-minimum sentinel of the smallest class.
\<close>

definition minTKey :: TKey where
  "minTKey = MinTKey TKeyMinClass"

text \<open>
  The \<^verbatim>\<open>SizeViewer\<close> interface has one method, \<^verbatim>\<open>GetApproximateSizes\<close>; a viewer is that
  method.
\<close>

type_synonym SizeViewer = "KeyRange list \<Rightarrow> error + uint64 list"

text \<open>The body of the loop that fills the result: \<^verbatim>\<open>sizes[curID] = s[i]\<close>.\<close>

definition store_size ::
  "InstanceID list \<Rightarrow> uint64 list \<Rightarrow> nat \<Rightarrow> (InstanceID \<rightharpoonup> uint64) \<Rightarrow> (InstanceID \<rightharpoonup> uint64)" where
  "store_size instances s i sizes = sizes(instances ! i \<mapsto> s ! i)"

definition getInstanceSizes ::
  "SizeViewer \<Rightarrow> InstanceID list \<Rightarrow> error + (InstanceID \<rightharpoonup> uint64)" where
  "getInstanceSizes sv instances =
     (let ranges = map (\<lambda>curID. \<lparr>Start = constructDataKey curID 0 0 minTKey,
                                 OpenEnd = constructDataKey (curID + 1) 0 0 minTKey\<rparr>) instances
      in case sv ranges of
           Inl err \<Rightarrow> Inl err
         | Inr s \<Rightarrow>
             if length s \<noteq> length instances
             then Inl (Errorf ''only got back %d instance sizes, not the requested %d instances''
                        [ArgInt (int (length s)), ArgInt (int (length instances))])
             else Inr (fold (store_size instances s) [0..<length instances] Map.empty))"

text \<open>The ranges \<^verbatim>\<open>getInstanceSizes\<close> asks the viewer about.\<close>

definition instance_ranges :: "InstanceID list \<Rightarrow> KeyRange list" where
  "instance_ranges instances =
     map (\<lambda>curID. \<lparr>Start = constructDataKey curID 0 0 minTKey,
                   OpenEnd = constructDataKey (curID + 1) 0 0 minTKey\<rparr>) instances"

text \<open>Reading one entry of the result: nothing on an error.\<close>

definition size_of :: "error + (InstanceID \<rightharpoonup> uint64) \<Rightarrow> InstanceID \<Rightarrow> uint64 option" where
  "size_of r k = (case r of Inl err \<Rightarrow> None | Inr sizes \<Rightarrow> sizes k)"

text \<open>A viewer that answers every request with the two sizes 10 and 20.\<close>

definition two_sizes :: SizeViewer where
  "two_sizes ranges = Inr [10, 20]"

text \<open>A viewer whose backend fails.\<close>

definition failing_sizes :: SizeViewer where
  "failing_sizes ranges = Inl (KindError BackendError ''read failed'')"

section \<open>Storage engines and the interfaces they satisfy\<close>

text \<open>
  An engine is a value of some concrete Go type behind the \<^verbatim>\<open>storage.Engine\<close> interface. A
  type assertion \<^verbatim>\<open>engine.(storage.I)\<close> succeeds when that type has the methods of \<open>I\<close>:
  the engine carries the list of the interfaces its type satisfies.
\<close>

datatype Interface = KeyValueGetter | KeyValueSetter | OrderedKeyValueGetter
  | OrderedKeyValueSetter | OrderedKeyValueDB | Batcher | GraphSetter | GraphGetter | GraphDB

record Engine =
  handle :: nat
  implements :: "Interface list"

definition assert_type :: "Engine \<Rightarrow> Interface \<Rightarrow> bool" where
  "assert_type e i = (i \<in> set (implements e))"

section \<open>Repositories and their version graphs\<close>

text \<open>
  Modelled from the spec: the types \<^verbatim>\<open>Repos\<close> and \<^verbatim>\<open>Repo\<close>, the nodes of the version graph
  and the functions on them (\<^verbatim>\<open>newRepo\<close>, \<^verbatim>\<open>newChild\<close>, \<^verbatim>\<open>Lock\<close>, \<^verbatim>\<open>RepoFromUUID\<close>,
  \<^verbatim>\<open>VerifyCompiledTypes\<close>, \<^verbatim>\<open>Put\<close>) are declared outside the files at hand. The
  specification gives a version the fields uuid, version-id, parents, children and locked
  (timestamps, note and log are left out here), a repository its repo-id, root uuid,
  version map, data instances and graph, and the registry an ordered list of
  repositories with the allocation counters of the local identifiers.
\<close>

type_synonym UUID = string

record DataInstance =
  TypeName :: string
  TypeVersion :: string
  DataInstanceID :: InstanceID

record Node =
  NodeUUID :: UUID
  NodeVersionID :: VersionID
  Parents :: "UUID list"
  Children :: "UUID list"
  Locked :: bool

record Repo =
  RepoID :: RepoID
  Root :: UUID
  VersionMap :: "(UUID \<times> VersionID) list"
  DataMap :: "(string \<times> DataInstance) list"
  DAG :: "Node list"

record Repos =
  list :: "Repo list"
  lastRepoID :: RepoID
  lastVersionID :: VersionID

text \<open>\<^verbatim>\<open>new(Repos)\<close>: the zero value.\<close>

definition new_Repos :: Repos where
  "new_Repos = \<lparr>list = [], lastRepoID = 0, lastVersionID = 0\<rparr>"

text \<open>
  Modelled from the spec: \<^verbatim>\<open>Repos.VerifyCompiledTypes\<close> checks that every datatype a
  data instance of the registry refers to, by name and version, is linked into the
  executable; the first that is not gives a DatatypeUnavailable error naming it.
\<close>

definition referenced_types :: "Repos \<Rightarrow> (string \<times> string) list" where
  "referenced_types repos =
     concat (map (\<lambda>repo. map (\<lambda>d. (TypeName (snd d), TypeVersion (snd d))) (DataMap repo))
               (list repos))"

definition VerifyCompiledTypes :: "(string \<times> string) list \<Rightarrow> Repos \<Rightarrow> error option" where
  "VerifyCompiledTypes compiled repos =
     (case filter (\<lambda>t. t \<notin> set compiled) (referenced_types repos) of
        [] \<Rightarrow> None
      | t # _ \<Rightarrow> Some (KindError DatatypeUnavailable (fst t @ ''@'' @ snd t)))"

text \<open>
  Modelled from the spec: \<^verbatim>\<open>Repos.RepoFromUUID\<close> finds the repository whose version map
  holds the UUID; an unknown UUID is NotFound.
\<close>

definition RepoFromUUID :: "UUID \<Rightarrow> Repos \<Rightarrow> error + Repo" where
  "RepoFromUUID u repos =
     (case find (\<lambda>repo. map_of (VersionMap repo) u \<noteq> None) (list repos) of
        None \<Rightarrow> Inl (KindError NotFound u)
      | Some repo \<Rightarrow> Inr repo)"

text \<open>
  Modelled from the spec: \<^verbatim>\<open>Repos.newRepo\<close> allocates a fresh repo-id and version-id and
  writes a single unlocked root node. The UUID of the root is drawn at random by the
  code; here it is an argument.
\<close>

definition newRepo :: "UUID \<Rightarrow> Repos \<Rightarrow> error + (Repo \<times> Repos)" where
  "newRepo u repos =
     (let rid = lastRepoID repos + 1;
          vid = lastVersionID repos + 1;
          root = \<lparr>NodeUUID = u, NodeVersionID = vid, Parents = [], Children = [],
                  Locked = False\<rparr>;
          repo = \<lparr>RepoID = rid, Root = u, VersionMap = [(u, vid)], DataMap = [],
                  DAG = [root]\<rparr>
      in Inr (repo, repos\<lparr>list := list repos @ [repo], lastRepoID := rid,
                lastVersionID := vid\<rparr>))"

text \<open>The repository that replaces the one of the same repo-id in the registry.\<close>

definition replace_repo :: "Repo \<Rightarrow> Repos \<Rightarrow> Repos" where
  "replace_repo repo repos =
     repos\<lparr>list := map (\<lambda>r. if RepoID r = RepoID repo then repo else r) (list repos)\<rparr>"

text \<open>
  Modelled from the spec: \<^verbatim>\<open>Repos.newChild\<close> requires the parent to be locked (a
  LockViolation otherwise), allocates a new version-id, and appends the child to the
  children of the parent and to the version map. The UUID of the child, drawn at random
  by the code, is an argument. The code returns a repository, a UUID and an error at
  once: a failure is given here with the UUID that comes with it, the empty one.
\<close>

definition add_child :: "UUID \<Rightarrow> UUID \<Rightarrow> Node \<Rightarrow> Node" where
  "add_child parent u n = (if NodeUUID n = parent then n\<lparr>Children := Children n @ [u]\<rparr> else n)"

definition newChild ::
  "UUID \<Rightarrow> UUID \<Rightarrow> Repos \<Rightarrow> (UUID \<times> error) + (Repo \<times> UUID \<times> Repos)" where
  "newChild u parent repos =
     (case RepoFromUUID parent repos of
        Inl err \<Rightarrow> Inl ('''', err)
      | Inr repo \<Rightarrow>
          (case find (\<lambda>n. NodeUUID n = parent) (DAG repo) of
             None \<Rightarrow> Inl ('''', KindError NotFound parent)
           | Some node \<Rightarrow>
               if \<not> Locked node then Inl ('''', KindError LockViolation parent)
               else
                 let vid = lastVersionID repos + 1;
                     child = \<lparr>NodeUUID = u, NodeVersionID = vid, Parents = [parent],
                              Children = [], Locked = False\<rparr>;
                     repo1 = repo\<lparr>VersionMap := AList.update u vid (VersionMap repo),
                                   DAG := map (add_child parent u) (DAG repo) @ [child]\<rparr>
                 in Inr (repo1, u, (replace_repo repo1 repos)\<lparr>lastVersionID := vid\<rparr>)))"

text \<open>
  Modelled from the spec: \<^verbatim>\<open>Repo.Lock\<close> takes a node from unlocked to locked; locking a
  locked node again is a no-op that succeeds.
\<close>

definition lock_node :: "UUID \<Rightarrow> Node \<Rightarrow> Node" where
  "lock_node u n = (if NodeUUID n = u then n\<lparr>Locked := True\<rparr> else n)"

definition Repo_Lock :: "UUID \<Rightarrow> Repo \<Rightarrow> error + Repo" where
  "Repo_Lock u repo =
     (case find (\<lambda>n. NodeUUID n = u) (DAG repo) of
        None \<Rightarrow> Inl (KindError NotFound u)
      | Some node \<Rightarrow> Inr (repo\<lparr>DAG := map (lock_node u) (DAG repo)\<rparr>))"

text \<open>
  \<^verbatim>\<open>MaxVersionID\<close> is \<^verbatim>\<open>dvid.MaxLocalID32\<close>. Modelled from the spec: that constant is
  declared outside the files at hand; it is the largest 32-bit value, kept as a sentinel.
\<close>

definition MaxVersionID :: VersionID where
  "MaxVersionID = 0xFFFFFFFF"

text \<open>The version-ids that the version maps and the graphs of a registry hold.\<close>

definition versions_in_use :: "Repos \<Rightarrow> VersionID list" where
  "versions_in_use repos =
     concat (map (\<lambda>r. map snd (VersionMap r) @ map NodeVersionID (DAG r)) (list repos))"

section \<open>The backend behind the key-value setter\<close>

text \<open>
  Modelled from the spec: \<^verbatim>\<open>Repos.Put\<close> and \<^verbatim>\<open>Repo.Put\<close> persist the registry and the
  descriptor of one repository under reserved metadata keys; the serialisation is left
  out, the backend keeps the values. A write to the backend may fail: \<open>outcomes\<close> lists
  the fate of the coming writes, \<open>None\<close> for one that succeeds and a message for one that
  fails with a BackendError; when the list is used up every write succeeds.
\<close>

record Backend =
  registry :: "Repos option"
  descriptors :: "(RepoID \<times> Repo) list"
  outcomes :: "string option list"

definition write_backend :: "(Backend \<Rightarrow> Backend) \<Rightarrow> Backend \<Rightarrow> error option \<times> Backend" where
  "write_backend f b =
     (case outcomes b of
        [] \<Rightarrow> (None, f b)
      | None # rest \<Rightarrow> (None, f (b\<lparr>outcomes := rest\<rparr>))
      | Some msg # rest \<Rightarrow> (Some (KindError BackendError msg), b\<lparr>outcomes := rest\<rparr>))"

definition Repos_Put :: "Repos \<Rightarrow> Backend \<Rightarrow> error option \<times> Backend" where
  "Repos_Put repos b = write_backend (\<lambda>b. b\<lparr>registry := Some repos\<rparr>) b"

definition Repo_Put :: "Repo \<Rightarrow> Backend \<Rightarrow> error option \<times> Backend" where
  "Repo_Put repo b =
     write_backend (\<lambda>b. b\<lparr>descriptors := AList.update (RepoID repo) repo (descriptors b)\<rparr>) b"

section \<open>The service (datastore package)\<close>

text \<open>
  What \<^verbatim>\<open>Open\<close> and \<^verbatim>\<open>Init\<close> reach outside the package: the constructors of the storage
  package, the registry read through the key-value getter, and the table of the
  datatypes compiled into the executable. The configuration handed to the constructors
  is always the empty one and is left out.
\<close>

record Outside =
  NewKeyValueStore :: "string \<Rightarrow> bool \<Rightarrow> error + Engine"
  NewGraphStore :: "string \<Rightarrow> bool \<Rightarrow> Engine \<Rightarrow> error + Engine"
  Load :: "Engine \<Rightarrow> error + Repos"
  CompiledTypes :: "(string \<times> string) list"

text \<open>
  The fields of a \<^verbatim>\<open>Service\<close> are interface values around the two engines; \<open>None\<close> is a
  nil \<^verbatim>\<open>*Repos\<close>.
\<close>

record Service =
  Repos :: "Repos option"
  engine :: Engine
  kvDB :: Engine
  kvSetter :: Engine
  kvGetter :: Engine
  graphengine :: Engine
  gDB :: Engine
  gSetter :: Engine
  gGetter :: Engine

datatype OpenErrorType = ErrorOpening | ErrorRepos | ErrorDatatypeUnavailable

record OpenError =
  error :: error
  ErrorType :: OpenErrorType

text \<open>
  \<^verbatim>\<open>Open(path)\<close>. The result is the pair of the code, a service or nil and an error or nil,
  and with it the engines on which the call has invoked \<^verbatim>\<open>Close()\<close>.
\<close>

definition Open :: "Outside \<Rightarrow> string \<Rightarrow> (Service option \<times> OpenError option) \<times> Engine list" where
  "Open out path =
     (let create = False in
      case NewKeyValueStore out path create of
        Inl err \<Rightarrow>
          ((None, Some \<lparr>error = Errorf ''Error opening datastore (%s): %s''
                                  [ArgString path, ArgErrorText err],
                        ErrorType = ErrorOpening\<rparr>), [])
      | Inr eng \<Rightarrow>
          if \<not> assert_type eng OrderedKeyValueGetter then
            ((None, Some \<lparr>error = Errorf ''Opened datastore cannot get key-value pairs.'' [],
                          ErrorType = ErrorOpening\<rparr>), [])
          else if \<not> assert_type eng OrderedKeyValueSetter then
            ((None, Some \<lparr>error = Errorf ''Opened datastore cannot set key-value pairs.'' [],
                          ErrorType = ErrorOpening\<rparr>), [])
          else if \<not> assert_type eng OrderedKeyValueDB then
            ((None, Some \<lparr>error = Errorf
                            ''Opened datastore does not support key-value database ops.'' [],
                          ErrorType = ErrorOpening\<rparr>), [])
          else
            (case NewGraphStore out path create eng of
               Inl err \<Rightarrow>
                 ((None, Some \<lparr>error = Errorf ''Error opening graph datastore (%s): %s''
                                         [ArgString path, ArgErrorText err],
                               ErrorType = ErrorOpening\<rparr>), [])
             | Inr geng \<Rightarrow>
                 if \<not> assert_type geng GraphSetter then
                   ((None, Some \<lparr>error = Errorf ''Opened datastore cannot set graph objects.'' [],
                                 ErrorType = ErrorOpening\<rparr>), [])
                 else if \<not> assert_type geng GraphGetter then
                   ((None, Some \<lparr>error = Errorf ''Opened datastore cannot get graph objects.'' [],
                                 ErrorType = ErrorOpening\<rparr>), [])
                 else if \<not> assert_type geng GraphDB then
                   ((None, Some \<lparr>error = Errorf
                                   ''Opened datastore does not support graph database ops.'' [],
                                 ErrorType = ErrorOpening\<rparr>), [])
                 else
                   (case Load out eng of
                      Inl err \<Rightarrow>
                        ((None, Some \<lparr>error = Errorf ''Error reading repos: %s''
                                                [ArgErrorText err],
                                      ErrorType = ErrorRepos\<rparr>), [])
                    | Inr repos \<Rightarrow>
                        (case VerifyCompiledTypes (CompiledTypes out) repos of
                           Some err \<Rightarrow>
                             ((None, Some \<lparr>error = Errorf
                                 ''Data are not fully supported by this DVID server: %s''
                                 [ArgErrorText err],
                               ErrorType = ErrorDatatypeUnavailable\<rparr>), [])
                         | None \<Rightarrow>
                             ((Some \<lparr>Repos = Some repos, engine = eng, kvDB = eng,
                                     kvSetter = eng, kvGetter = eng,
                                     graphengine = geng, gDB = geng,
                                     gSetter = geng, gGetter = geng\<rparr>, None), [])))))"

text \<open>
  \<^verbatim>\<open>Init(directory, create, config)\<close>, the sibling of \<^verbatim>\<open>Open\<close>: each engine it has opened
  is closed by a deferred \<^verbatim>\<open>Close()\<close> on every return, the later one first. The result is
  the error or nil, the engines closed, and the backend after the registry was put.
\<close>

definition Init :: "Outside \<Rightarrow> string \<Rightarrow> bool \<Rightarrow> Backend \<Rightarrow> error option \<times> Engine list \<times> Backend" where
  "Init out directory create b =
     (case NewKeyValueStore out directory create of
        Inl err \<Rightarrow>
          (Some (Errorf ''Error initializing datastore (%s): %s\<newline>''
                   [ArgString directory, ArgErrorText err]), [], b)
      | Inr eng \<Rightarrow>
          if \<not> assert_type eng OrderedKeyValueDB then
            (Some (Errorf ''Datastore at %s does not support key-value database ops.''
                     [ArgString directory]), [eng], b)
          else
            (case NewGraphStore out directory create eng of
               Inl err \<Rightarrow>
                 (Some (Errorf ''Error initializing graph datastore (%s): %s\<newline>''
                          [ArgString directory, ArgErrorText err]), [eng], b)
             | Inr geng \<Rightarrow>
                 if \<not> assert_type eng OrderedKeyValueSetter then
                   (Some (Errorf ''Datastore at %s does not support setting of key-value pairs!''
                            [ArgString directory]), [geng, eng], b)
                 else
                   (case Repos_Put new_Repos b of
                      (err, b1) \<Rightarrow> (err, [geng, eng], b1))))"

text \<open>The accessors of the service: the handle and the error of the code.\<close>

definition Service_OrderedKeyValueDB :: "Service \<Rightarrow> Engine \<times> error option" where
  "Service_OrderedKeyValueDB s = (kvDB s, None)"

definition Service_OrderedKeyValueGetter :: "Service \<Rightarrow> Engine \<times> error option" where
  "Service_OrderedKeyValueGetter s = (kvGetter s, None)"

definition Service_OrderedKeyValueSetter :: "Service \<Rightarrow> Engine \<times> error option" where
  "Service_OrderedKeyValueSetter s = (kvSetter s, None)"

definition Service_GraphDB :: "Service \<Rightarrow> Engine \<times> error option" where
  "Service_GraphDB s = (gDB s, None)"

definition Service_Batcher :: "Service \<Rightarrow> Engine option \<times> error option" where
  "Service_Batcher s =
     (if assert_type (kvSetter s) Batcher then (Some (kvSetter s), None)
      else (None, Some (Errorf ''DVID key-value store does not support batch write'' [])))"

text \<open>\<^verbatim>\<open>Service.Shutdown()\<close>: the engines on which it invokes \<^verbatim>\<open>Close()\<close>.\<close>

definition Shutdown :: "Service \<Rightarrow> Engine list" where
  "Shutdown s = [engine s]"

text \<open>
  The mutations of the service change the repositories in memory, through the pointer
  \<^verbatim>\<open>s.Repos\<close>, and the backend: both are handed on. The results the code names are
  returned with their zero values where the code leaves them unset (the empty UUID, 0).
\<close>

definition NewRepo ::
  "UUID \<Rightarrow> Service \<Rightarrow> Backend \<Rightarrow> (UUID \<times> RepoID \<times> error option) \<times> Service \<times> Backend" where
  "NewRepo fresh s b =
     (case Repos s of
        None \<Rightarrow> (('''', 0, Some (Errorf ''Datastore service has no repos available'' [])), s, b)
      | Some repos \<Rightarrow>
          (case newRepo fresh repos of
             Inl err \<Rightarrow> (('''', 0, Some err), s, b)
           | Inr (repo, repos1) \<Rightarrow>
               (case Repos_Put repos1 b of
                  (Some err, b1) \<Rightarrow> (('''', 0, Some err), s\<lparr>Repos := Some repos1\<rparr>, b1)
                | (None, b1) \<Rightarrow>
                    (case Repo_Put repo b1 of
                       (err, b2) \<Rightarrow>
                         ((Root repo, RepoID repo, err), s\<lparr>Repos := Some repos1\<rparr>, b2)))))"

definition NewVersion ::
  "UUID \<Rightarrow> UUID \<Rightarrow> Service \<Rightarrow> Backend \<Rightarrow> (UUID \<times> error option) \<times> Service \<times> Backend" where
  "NewVersion fresh parent s b =
     (case Repos s of
        None \<Rightarrow> (('''', Some (Errorf ''Datastore service has no repos available'' [])), s, b)
      | Some repos \<Rightarrow>
          (case newChild fresh parent repos of
             Inl (u, err) \<Rightarrow> ((u, Some err), s, b)
           | Inr (repo, u, repos1) \<Rightarrow>
               (case Repo_Put repo b of
                  (err, b1) \<Rightarrow> ((u, err), s\<lparr>Repos := Some repos1\<rparr>, b1))))"

definition Lock :: "UUID \<Rightarrow> Service \<Rightarrow> Backend \<Rightarrow> error option \<times> Service \<times> Backend" where
  "Lock u s b =
     (case Repos s of
        None \<Rightarrow> (Some (Errorf ''Datastore service has no repos available'' []), s, b)
      | Some repos \<Rightarrow>
          (case RepoFromUUID u repos of
             Inl err \<Rightarrow> (Some err, s, b)
           | Inr repo \<Rightarrow>
               (case Repo_Lock u repo of
                  Inl err \<Rightarrow> (Some err, s, b)
                | Inr repo1 \<Rightarrow>
                    (case Repo_Put repo1 b of
                       (err, b1) \<Rightarrow> (err, s\<lparr>Repos := Some (replace_repo repo1 repos)\<rparr>, b1)))))"

section \<open>Concrete engines, registries and surroundings\<close>

text \<open>
  An ordered key-value engine without batches, a graph engine, and an engine that has
  only the plain getter and setter.
\<close>

definition ordered_engine :: Engine where
  "ordered_engine = \<lparr>handle = 1, implements = [KeyValueGetter, KeyValueSetter,
     OrderedKeyValueGetter, OrderedKeyValueSetter, OrderedKeyValueDB]\<rparr>"

definition graph_engine :: Engine where
  "graph_engine = \<lparr>handle = 2, implements = [GraphSetter, GraphGetter, GraphDB]\<rparr>"

definition plain_engine :: Engine where
  "plain_engine = \<lparr>handle = 3, implements = [KeyValueGetter, KeyValueSetter]\<rparr>"

text \<open>A registry with one repository whose data instance d1 is of type foo, version v3.\<close>

definition registry_foo_v3 :: Repos where
  "registry_foo_v3 =
     \<lparr>list = [\<lparr>RepoID = 1, Root = ''ab12'', VersionMap = [(''ab12'', 1)],
               DataMap = [(''d1'', \<lparr>TypeName = ''foo'', TypeVersion = ''v3'',
                                   DataInstanceID = 1\<rparr>)],
               DAG = [\<lparr>NodeUUID = ''ab12'', NodeVersionID = 1, Parents = [],
                       Children = [], Locked = False\<rparr>]\<rparr>],
      lastRepoID = 1, lastVersionID = 1\<rparr>"

text \<open>
  Surroundings in which both engines open and the registry above is read: with foo v3
  linked in, with only foo v2 linked in, with a registry that cannot be read, with a
  store that cannot be opened, and with the plain engine as the key-value store.
\<close>

definition outside_ok :: Outside where
  "outside_ok = \<lparr>NewKeyValueStore = (\<lambda>path create. Inr ordered_engine),
     NewGraphStore = (\<lambda>path create kv. Inr graph_engine),
     Load = (\<lambda>getter. Inr registry_foo_v3),
     CompiledTypes = [(''foo'', ''v3'')]\<rparr>"

definition outside_foo_v2 :: Outside where
  "outside_foo_v2 = outside_ok\<lparr>CompiledTypes := [(''foo'', ''v2'')]\<rparr>"

definition outside_unreadable :: Outside where
  "outside_unreadable =
     outside_ok\<lparr>Load := (\<lambda>getter. Inl (KindError RegistryError ''corrupt registry''))\<rparr>"

definition outside_no_store :: Outside where
  "outside_no_store =
     outside_ok\<lparr>NewKeyValueStore :=
       (\<lambda>path create. Inl (KindError OpenErrorKind ''no such directory''))\<rparr>"

definition outside_plain :: Outside where
  "outside_plain = outside_ok\<lparr>NewKeyValueStore := (\<lambda>path create. Inr plain_engine)\<rparr>"

text \<open>The service \<^verbatim>\<open>Open\<close> returns in the first of these surroundings.\<close>

definition service_ok :: Service where
  "service_ok = \<lparr>Repos = Some registry_foo_v3, engine = ordered_engine,
     kvDB = ordered_engine, kvSetter = ordered_engine, kvGetter = ordered_engine,
     graphengine = graph_engine, gDB = graph_engine, gSetter = graph_engine,
     gGetter = graph_engine\<rparr>"

text \<open>An empty backend on which every write succeeds.\<close>

definition empty_backend :: Backend where
  "empty_backend = \<lparr>registry = None, descriptors = [], outcomes = []\<rparr>"

text \<open>
  The first stage of \<^verbatim>\<open>Open\<close>: the key-value engine opens and passes the three
  assertions, then the graph engine opens and passes its three.
\<close>

definition backend_opens :: "Outside \<Rightarrow> string \<Rightarrow> (Engine \<times> Engine) option" where
  "backend_opens out path =
     (case NewKeyValueStore out path False of
        Inl err \<Rightarrow> None
      | Inr eng \<Rightarrow>
          if assert_type eng OrderedKeyValueGetter \<and> assert_type eng OrderedKeyValueSetter \<and>
             assert_type eng OrderedKeyValueDB
          then (case NewGraphStore out path False eng of
                  Inl err \<Rightarrow> None
                | Inr geng \<Rightarrow>
                    if assert_type geng GraphSetter \<and> assert_type geng GraphGetter \<and>
                       assert_type geng GraphDB
                    then Some (eng, geng) else None)
          else None)"

text \<open>The service above over an engine that also supports batches.\<close>

definition service_batch :: Service where
  "service_batch =
     service_ok\<lparr>kvSetter := ordered_engine\<lparr>implements := Batcher # implements ordered_engine\<rparr>\<rparr>"

text \<open>The message of the failure of the next write to the backend, if it is to fail.\<close>

definition next_write_fails :: "Backend \<Rightarrow> string option" where
  "next_write_fails b = (case outcomes b of Some msg # rest \<Rightarrow> Some msg | _ \<Rightarrow> None)"

text \<open>
  A service with an empty registry; a backend whose first write succeeds and whose second
  fails; a backend whose first write fails.
\<close>

definition service_empty :: Service where
  "service_empty = service_ok\<lparr>Repos := Some new_Repos\<rparr>"

definition backend_second_fails :: Backend where
  "backend_second_fails = empty_backend\<lparr>outcomes := [None, Some ''disk full'']\<rparr>"

definition backend_first_fails :: Backend where
  "backend_first_fails = empty_backend\<lparr>outcomes := [Some ''disk full'']\<rparr>"

text \<open>
  A registry with one repository of two versions: the root ab12, and its child cd34. In
  the first the root is locked, in the second it is not.
\<close>

definition repo_locked_root :: Repo where
  "repo_locked_root =
     \<lparr>RepoID = 1, Root = ''ab12'', VersionMap = [(''ab12'', 1)], DataMap = [],
      DAG = [\<lparr>NodeUUID = ''ab12'', NodeVersionID = 1, Parents = [], Children = [],
              Locked = True\<rparr>]\<rparr>"

definition service_locked_root :: Service where
  "service_locked_root =
     service_ok\<lparr>Repos := Some \<lparr>list = [repo_locked_root], lastRepoID = 1, lastVersionID = 1\<rparr>\<rparr>"

definition service_open_root :: Service where
  "service_open_root =
     service_ok\<lparr>Repos := Some \<lparr>list = [repo_locked_root\<lparr>DAG :=
       [\<lparr>NodeUUID = ''ab12'', NodeVersionID = 1, Parents = [], Children = [],
         Locked = False\<rparr>]\<rparr>], lastRepoID = 1, lastVersionID = 1\<rparr>\<rparr>"

section \<open>Versioned reads and writes of a data context\<close>

text \<open>
  Modelled from the spec: the files at hand declare the interfaces \<^verbatim>\<open>KeyValueGetter\<close> and
  \<^verbatim>\<open>KeyValueSetter\<close>; the engines and the data context that implement them are outside.
  By the specification, \<^verbatim>\<open>Put(tkey, v)\<close> writes the value under the data key of
  (instance, version, client 0, tkey) and removes a tombstone of that key at that version;
  \<^verbatim>\<open>Delete(tkey)\<close> writes a tombstone at this version, where the value is gone, and leaves
  the other versions alone; \<^verbatim>\<open>Get(tkey)\<close> returns the value written at the closest ancestor
  of the version, itself included, where the key was written or tombstoned, a tombstone
  giving NotFound, and two ancestors at the same distance that both hold the key giving
  Conflict. The store is the map from full keys to values.
\<close>

type_synonym KeyValueStore = "Key \<rightharpoonup> byte list"

record DataContext =
  ContextInstanceID :: InstanceID
  ContextVersionID :: VersionID

datatype Stored = Written "byte list" | Tombstone

definition Put :: "DataContext \<Rightarrow> TKey \<Rightarrow> byte list \<Rightarrow> KeyValueStore \<Rightarrow> KeyValueStore" where
  "Put ctx tk v kv =
     (kv(constructTombstoneKey (ContextInstanceID ctx) (ContextVersionID ctx) 0 tk := None))
       (constructDataKey (ContextInstanceID ctx) (ContextVersionID ctx) 0 tk \<mapsto> v)"

definition Delete :: "DataContext \<Rightarrow> TKey \<Rightarrow> KeyValueStore \<Rightarrow> KeyValueStore" where
  "Delete ctx tk kv =
     (kv(constructDataKey (ContextInstanceID ctx) (ContextVersionID ctx) 0 tk := None))
       (constructTombstoneKey (ContextInstanceID ctx) (ContextVersionID ctx) 0 tk \<mapsto> [])"

text \<open>What one version holds for a key: a tombstone, a value, or nothing.\<close>

definition stored_at :: "KeyValueStore \<Rightarrow> InstanceID \<Rightarrow> TKey \<Rightarrow> VersionID \<Rightarrow> Stored option" where
  "stored_at kv i tk v =
     (case kv (constructTombstoneKey i v 0 tk) of
        Some t \<Rightarrow> Some Tombstone
      | None \<Rightarrow> map_option Written (kv (constructDataKey i v 0 tk)))"

text \<open>The version-ids of the parents of a version in the graph of a repository.\<close>

definition parent_versions :: "Repo \<Rightarrow> VersionID \<Rightarrow> VersionID list" where
  "parent_versions repo v =
     (case find (\<lambda>n. NodeVersionID n = v) (DAG repo) of
        None \<Rightarrow> []
      | Some n \<Rightarrow> List.map_filter (map_of (VersionMap repo)) (Parents n))"

text \<open>
  The walk towards the root, one distance at a time, starting from the version itself.
  The number of steps is bounded by the number of nodes of the graph.
\<close>

fun closest ::
  "nat \<Rightarrow> (VersionID \<Rightarrow> VersionID list) \<Rightarrow> (VersionID \<Rightarrow> Stored option) \<Rightarrow> VersionID list \<Rightarrow>
   error + byte list" where
  "closest 0 parents held frontier = Inl (KindError NotFound ''key not found'')"
| "closest (Suc fuel) parents held frontier =
     (case filter (\<lambda>v. held v \<noteq> None) frontier of
        [] \<Rightarrow> closest fuel parents held (remdups (concat (map parents frontier)))
      | [v] \<Rightarrow>
          (case held v of
             Some (Written x) \<Rightarrow> Inr x
           | _ \<Rightarrow> Inl (KindError NotFound ''key not found''))
      | v # w # others \<Rightarrow> Inl (KindError Conflict ''key held by several ancestors''))"

definition Get :: "Repo \<Rightarrow> DataContext \<Rightarrow> TKey \<Rightarrow> KeyValueStore \<Rightarrow> error + byte list" where
  "Get repo ctx tk kv =
     closest (Suc (length (DAG repo))) (parent_versions repo)
       (stored_at kv (ContextInstanceID ctx) tk) [ContextVersionID ctx]"

text \<open>
  The versions a number of steps up from a set of versions: each step goes from the
  versions to their parents, as the walk of \<^verbatim>\<open>Get\<close> does. \<open>ancestors_at repo v n\<close> are the
  ancestors of \<open>v\<close> at distance \<open>n\<close> in the graph of the repository, \<open>v\<close> itself at
  distance 0.
\<close>

fun frontier_after :: "nat \<Rightarrow> (VersionID \<Rightarrow> VersionID list) \<Rightarrow> VersionID list \<Rightarrow> VersionID list" where
  "frontier_after 0 parents frontier = frontier"
| "frontier_after (Suc n) parents frontier =
     frontier_after n parents (remdups (concat (map parents frontier)))"

definition ancestors_at :: "Repo \<Rightarrow> VersionID \<Rightarrow> nat \<Rightarrow> VersionID list" where
  "ancestors_at repo v n = frontier_after n (parent_versions repo) [v]"

text \<open>
  The repository after \<^verbatim>\<open>NewRepo\<close>, \<^verbatim>\<open>Lock\<close> of the root ab12 and \<^verbatim>\<open>NewVersion\<close> of the
  child cd34.
\<close>

definition repo_two_versions :: Repo where
  "repo_two_versions =
     \<lparr>RepoID = 1, Root = ''ab12'', VersionMap = [(''ab12'', 1), (''cd34'', 2)], DataMap = [],
      DAG = [\<lparr>NodeUUID = ''ab12'', NodeVersionID = 1, Parents = [], Children = [''cd34''],
              Locked = True\<rparr>,
             \<lparr>NodeUUID = ''cd34'', NodeVersionID = 2, Parents = [''ab12''], Children = [],
              Locked = False\<rparr>]\<rparr>"

text \<open>
  A repository with the chain of versions 1, 2, 3, each the only parent of the next, and
  one in which version 4 merges the two children 2 and 3 of the root 1.
\<close>

definition repo_three_versions :: Repo where
  "repo_three_versions =
     \<lparr>RepoID = 1, Root = ''ab12'',
      VersionMap = [(''ab12'', 1), (''cd34'', 2), (''ef56'', 3)], DataMap = [],
      DAG = [\<lparr>NodeUUID = ''ab12'', NodeVersionID = 1, Parents = [], Children = [''cd34''],
              Locked = True\<rparr>,
             \<lparr>NodeUUID = ''cd34'', NodeVersionID = 2, Parents = [''ab12''],
              Children = [''ef56''], Locked = True\<rparr>,
             \<lparr>NodeUUID = ''ef56'', NodeVersionID = 3, Parents = [''cd34''], Children = [],
              Locked = False\<rparr>]\<rparr>"

definition repo_merge :: Repo where
  "repo_merge =
     \<lparr>RepoID = 1, Root = ''ab12'',
      VersionMap = [(''ab12'', 1), (''cd34'', 2), (''ef56'', 3), (''0789'', 4)], DataMap = [],
      DAG = [\<lparr>NodeUUID = ''ab12'', NodeVersionID = 1, Parents = [],
              Children = [''cd34'', ''ef56''], Locked = True\<rparr>,
             \<lparr>NodeUUID = ''cd34'', NodeVersionID = 2, Parents = [''ab12''],
              Children = [''0789''], Locked = True\<rparr>,
             \<lparr>NodeUUID = ''ef56'', NodeVersionID = 3, Parents = [''ab12''],
              Children = [''0789''], Locked = True\<rparr>,
             \<lparr>NodeUUID = ''0789'', NodeVersionID = 4, Parents = [''cd34'', ''ef56''],
              Children = [], Locked = False\<rparr>]\<rparr>"

text \<open>The versions from 3 down to 1, by their distance from version 3.\<close>

definition down_from_3 :: "nat \<Rightarrow> VersionID" where
  "down_from_3 j = (if j = 0 then 3 else if j = 1 then 2 else 1)"

section \<open>Facts about the byte order\<close>

lemma bytes_Compare_lexord:
  "bytes_Compare a b = - 1 \<longleftrightarrow> (a, b) \<in> lexord {(x, y). x < y}"
  by (induction a b rule: bytes_Compare.induct) auto

lemma bytes_Compare_eq: "bytes_Compare a b = 0 \<longleftrightarrow> a = b"
  by (induction a b rule: bytes_Compare.induct) auto

lemma bytes_Compare_range: "bytes_Compare a b \<in> {- 1, 0, 1}"
  by (induction a b rule: bytes_Compare.induct) auto

text \<open>
  The examples of the package comment, as ASCII bytes: composer before computer, house
  before household, Household before house, H2O before HOTEL.
\<close>

lemma bytes_Compare_documented_examples:
  "bytes_Compare [0x63, 0x6F, 0x6D, 0x70, 0x6F, 0x73, 0x65, 0x72]
                 [0x63, 0x6F, 0x6D, 0x70, 0x75, 0x74, 0x65, 0x72] = - 1"
  "bytes_Compare [0x68, 0x6F, 0x75, 0x73, 0x65]
                 [0x68, 0x6F, 0x75, 0x73, 0x65, 0x68, 0x6F, 0x6C, 0x64] = - 1"
  "bytes_Compare [0x48, 0x6F, 0x75, 0x73, 0x65, 0x68, 0x6F, 0x6C, 0x64]
                 [0x68, 0x6F, 0x75, 0x73, 0x65] = - 1"
  "bytes_Compare [0x48, 0x32, 0x4F] [0x48, 0x4F, 0x54, 0x45, 0x4C] = - 1"
  by simp_all

section \<open>Big-endian identifiers\<close>

lemma PutUint32_fresh:
  "PutUint32 (replicate LocalID32Size 0) v =
     Some [ucast (drop_bit 24 v), ucast (drop_bit 16 v), ucast (drop_bit 8 v), ucast v]"
  by (simp add: PutUint32_def LocalID32Size_def numeral_eq_Suc)

lemma Uint32_of_bytes:
  "Uint32 [ucast (drop_bit 24 v), ucast (drop_bit 16 v), ucast (drop_bit 8 v), ucast v] = Some v"
proof -
  have "ucast (ucast v :: byte) OR push_bit 8 (ucast (ucast (drop_bit 8 v) :: byte)) OR
        push_bit 16 (ucast (ucast (drop_bit 16 v) :: byte)) OR
        push_bit 24 (ucast (ucast (drop_bit 24 v) :: byte)) = v"
  proof (rule bit_word_eqI)
    fix n
    assume "n < LENGTH(32)"
    then consider "n < 8" | "8 \<le> n" "n < 16" | "16 \<le> n" "n < 24" | "24 \<le> n" "n < 32"
      by fastforce
    then show "bit (ucast (ucast v :: byte) OR push_bit 8 (ucast (ucast (drop_bit 8 v) :: byte)) OR
        push_bit 16 (ucast (ucast (drop_bit 16 v) :: byte)) OR
        push_bit 24 (ucast (ucast (drop_bit 24 v) :: byte)) :: uint32) n = bit v n"
      by cases (auto simp add: bit_simps)
  qed
  then show ?thesis
    by (simp add: Uint32_def)
qed

lemma be_arith:
  fixes n :: nat
  assumes "n < 4294967296"
  shows "n div 16777216 * 16777216 +
         (n div 65536 mod 256 * 65536 + (n div 256 mod 256 * 256 + n mod 256)) = n"
proof -
  define q1 where "q1 = n div 256"
  define q2 where "q2 = q1 div 256"
  define q3 where "q3 = q2 div 256"
  have d2: "n div 65536 = q2"
    using div_mult2_eq [of n 256 256] by (simp add: q1_def q2_def)
  have d3: "n div 16777216 = q3"
    using div_mult2_eq [of n 65536 256] d2 by (simp add: q3_def)
  have e1: "n = q1 * 256 + n mod 256" by (simp add: q1_def)
  have e2: "q1 = q2 * 256 + q1 mod 256" by (simp add: q2_def)
  have e3: "q2 = q3 * 256 + q2 mod 256" by (simp add: q3_def)
  have "q3 * 16777216 + (q2 mod 256 * 65536 + (q1 mod 256 * 256 + n mod 256)) = n"
    using e1 e2 e3 by linarith
  then show ?thesis by (simp add: d2 d3 q1_def)
qed

lemma be_value_of_bytes:
  "be_value [ucast (drop_bit 24 v), ucast (drop_bit 16 v), ucast (drop_bit 8 v),
             ucast (v :: uint32) :: byte] = unat v"
proof -
  have bound: "unat v < 4294967296"
    using unsigned_less [of v] by simp
  then have "unat v div 16777216 * 16777216 +
      (unat v div 65536 mod 256 * 65536 + (unat v div 256 mod 256 * 256 + unat v mod 256)) =
      unat v"
    by (rule be_arith)
  moreover have "unat (ucast (drop_bit k v) :: byte) = unat v div 2 ^ k mod 256" for k
    by (simp only: unsigned_ucast_eq unat_drop_bit_eq)
       (simp add: drop_bit_eq_div take_bit_eq_mod)
  moreover have "unat (ucast v :: byte) = unat v mod 256"
    by (simp only: unsigned_ucast_eq take_bit_eq_mod) simp
  moreover have "unat v div 16777216 mod 256 = unat v div 16777216"
    using bound by simp
  ultimately show ?thesis
    by simp
qed

lemma encode_decode:
  "Option.bind (PutUint32 (replicate LocalID32Size 0) v)
     (\<lambda>b. map_option (\<lambda>w. (w, LocalID32Size)) (Uint32 b)) = Some (v, 4)"
  by (simp only: PutUint32_fresh) (simp add: Uint32_of_bytes LocalID32Size_def)

text \<open>
  C7. Every 32-bit InstanceID, RepoID and VersionID is encoded by \<^verbatim>\<open>Bytes()\<close> as exactly
  four bytes whose big-endian reading is the identifier, and the matching
  \<^verbatim>\<open>...FromBytes\<close> decoder gives the identifier back together with the length 4.
\<close>

theorem id_bytes_roundtrip:
  "map_option length (InstanceID_Bytes v) = Some 4 \<and>
   map_option be_value (InstanceID_Bytes v) = Some (unat v) \<and>
   Option.bind (InstanceID_Bytes v) InstanceIDFromBytes = Some (v, 4) \<and>
   map_option length (RepoID_Bytes v) = Some 4 \<and>
   map_option be_value (RepoID_Bytes v) = Some (unat v) \<and>
   Option.bind (RepoID_Bytes v) RepoIDFromBytes = Some (v, 4) \<and>
   map_option length (VersionID_Bytes v) = Some 4 \<and>
   map_option be_value (VersionID_Bytes v) = Some (unat v) \<and>
   Option.bind (VersionID_Bytes v) VersionIDFromBytes = Some (v, 4)"
proof -
  have len: "map_option length (PutUint32 (replicate LocalID32Size 0) v) = Some 4"
    by (simp add: PutUint32_fresh)
  have val: "map_option be_value (PutUint32 (replicate LocalID32Size 0) v) = Some (unat v)"
    by (simp only: PutUint32_fresh option.map be_value_of_bytes)
  have rt: "Option.bind (PutUint32 (replicate LocalID32Size 0) v)
       (\<lambda>b. map_option (\<lambda>w. (w, LocalID32Size)) (Uint32 b)) = Some (v, 4)"
    by (rule encode_decode)
  have i: "InstanceIDFromBytes = (\<lambda>b. map_option (\<lambda>w. (w, LocalID32Size)) (Uint32 b))"
    by (rule ext) (simp add: InstanceIDFromBytes_def)
  have r: "RepoIDFromBytes = (\<lambda>b. map_option (\<lambda>w. (w, LocalID32Size)) (Uint32 b))"
    by (rule ext) (simp add: RepoIDFromBytes_def)
  have w: "VersionIDFromBytes = (\<lambda>b. map_option (\<lambda>w. (w, LocalID32Size)) (Uint32 b))"
    by (rule ext) (simp add: VersionIDFromBytes_def)
  show ?thesis
    unfolding InstanceID_Bytes_def RepoID_Bytes_def VersionID_Bytes_def i r w
    using len val rt by simp
qed

section \<open>Type-specific keys between their sentinels\<close>

lemma NewTKey_shape:
  "NewTKey c b = c # tkeyStandardByte # (case b of None \<Rightarrow> [] | Some t \<Rightarrow> t)"
  by (cases b)
     (simp_all add: NewTKey_def len_slice_def copy_bytes_def Let_def numeral_eq_Suc)

text \<open>
  C9. For every class \<open>c\<close> and every body \<open>b\<close>, nil included, \<^verbatim>\<open>NewTKey(c, b)\<close> is
  \<open>[c, 0x01, b...]\<close>, and in the byte order \<^verbatim>\<open>MinTKey(c)\<close> \<open>= [c, 0x00]\<close> comes strictly
  before it and \<^verbatim>\<open>MaxTKey(c)\<close> \<open>= [c, 0xFF]\<close> strictly after it.
\<close>

theorem TKey_between_sentinels:
  "NewTKey c b = c # 0x01 # (case b of None \<Rightarrow> [] | Some t \<Rightarrow> t) \<and>
   MinTKey c = [c, 0x00] \<and>
   MaxTKey c = [c, 0xFF] \<and>
   bytes_Compare (MinTKey c) (NewTKey c b) = - 1 \<and>
   bytes_Compare (NewTKey c b) (MaxTKey c) = - 1"
  by (simp add: NewTKey_shape MinTKey_def MaxTKey_def tkeyMinByte_def tkeyStandardByte_def
      tkeyMaxByte_def)

section \<open>The comparison used for sorting key-value pairs\<close>

lemma Less_not_after:
  "0 \<le> i \<Longrightarrow> i < int (length kv) \<Longrightarrow> 0 \<le> j \<Longrightarrow> j < int (length kv) \<Longrightarrow>
   Less kv i j =
     Some ((K (kv ! nat i), K (kv ! nat j)) \<in> lexord {(x, y). x < y} \<or>
           K (kv ! nat i) = K (kv ! nat j))"
  using bytes_Compare_range [of "K (kv ! nat i)" "K (kv ! nat j)"]
    bytes_Compare_lexord [of "K (kv ! nat i)" "K (kv ! nat j)"]
    bytes_Compare_eq [of "K (kv ! nat i)" "K (kv ! nat j)"]
  by (auto simp add: Less_def)

text \<open>
  C2. \<^verbatim>\<open>TKeyValues.Less\<close> is meant to hold exactly when the first key comes strictly
  before the second. On two elements with the same key \<open>a\<close> (the byte 0x61) the
  comparison \<^verbatim>\<open>bytes.Compare\<close> is 0, and \<^verbatim>\<open>Less\<close> answers true, in both directions.
\<close>

theorem Less_on_equal_keys:
  "bytes_Compare [0x61] [0x61] = 0 \<and>
   Less [\<lparr>K = [0x61], V = [0x01]\<rparr>, \<lparr>K = [0x61], V = [0x02]\<rparr>] 0 1 = Some True \<and>
   Less [\<lparr>K = [0x61], V = [0x01]\<rparr>, \<lparr>K = [0x61], V = [0x02]\<rparr>] 1 0 = Some True"
  by (simp add: Less_def)

section \<open>The sizes of data instances\<close>

lemma store_size_dom: "dom (store_size instances s i m) = insert (instances ! i) (dom m)"
  by (simp add: store_size_def)

lemma store_size_apply:
  "store_size instances s i m k = (if k = instances ! i then Some (s ! i) else m k)"
  by (simp add: store_size_def)

lemma fold_store_size_dom:
  "n \<le> length instances \<Longrightarrow>
   dom (fold (store_size instances s) [0..<n] m) = dom m \<union> set (take n instances)"
proof (induction n)
  case 0
  then show ?case by simp
next
  case (Suc n)
  then show ?case by (simp add: take_Suc_conv_app_nth store_size_dom)
qed

lemma fold_store_size_last:
  "n \<le> length instances \<Longrightarrow> i < n \<Longrightarrow>
   \<forall>j. i < j \<and> j < n \<longrightarrow> instances ! j \<noteq> instances ! i \<Longrightarrow>
   fold (store_size instances s) [0..<n] m (instances ! i) = Some (s ! i)"
proof (induction n)
  case 0
  then show ?case by simp
next
  case (Suc n)
  show ?case
  proof (cases "i = n")
    case True
    then show ?thesis by (simp add: store_size_apply)
  next
    case False
    with Suc.prems have "i < n" by simp
    moreover have "instances ! i \<noteq> instances ! n"
      using Suc.prems(3) \<open>i < n\<close> by fastforce
    ultimately show ?thesis using Suc by (simp add: store_size_apply)
  qed
qed

lemma getInstanceSizes_ranges:
  "getInstanceSizes sv instances =
     (case sv (instance_ranges instances) of
        Inl err \<Rightarrow> Inl err
      | Inr s \<Rightarrow>
          if length s \<noteq> length instances
          then Inl (Errorf ''only got back %d instance sizes, not the requested %d instances''
                     [ArgInt (int (length s)), ArgInt (int (length instances))])
          else Inr (fold (store_size instances s) [0..<length instances] Map.empty))"
  by (simp add: getInstanceSizes_def instance_ranges_def)

text \<open>
  C10, as the code has it. \<^verbatim>\<open>getInstanceSizes\<close> hands the error of
  \<^verbatim>\<open>GetApproximateSizes\<close> on, and answers with an error of its own when the number of sizes
  differs from the number of instances; in both cases there is no map. Otherwise the map
  has an entry for exactly the requested instance identifiers, and the entry of an
  identifier is the size at the last position where the identifier was requested; so when
  the requested identifiers are distinct, the i-th size is keyed by the i-th instance.
\<close>

theorem getInstanceSizes_last_wins:
  "(sv (instance_ranges instances) = Inl err \<longrightarrow> getInstanceSizes sv instances = Inl err) \<and>
   (sv (instance_ranges instances) = Inr s \<and> length s \<noteq> length instances \<longrightarrow>
      getInstanceSizes sv instances =
        Inl (Errorf ''only got back %d instance sizes, not the requested %d instances''
               [ArgInt (int (length s)), ArgInt (int (length instances))])) \<and>
   (sv (instance_ranges instances) = Inr s \<and> length s = length instances \<longrightarrow>
      (\<exists>sizes. getInstanceSizes sv instances = Inr sizes \<and>
         dom sizes = set instances \<and>
         (\<forall>i < length instances.
            (\<forall>j. i < j \<and> j < length instances \<longrightarrow> instances ! j \<noteq> instances ! i) \<longrightarrow>
            sizes (instances ! i) = Some (s ! i)) \<and>
         (distinct instances \<longrightarrow>
            (\<forall>i < length instances. sizes (instances ! i) = Some (s ! i)))))"
proof (intro conjI impI)
  assume "sv (instance_ranges instances) = Inl err"
  then show "getInstanceSizes sv instances = Inl err"
    by (simp add: getInstanceSizes_ranges)
next
  assume "sv (instance_ranges instances) = Inr s \<and> length s \<noteq> length instances"
  then show "getInstanceSizes sv instances =
        Inl (Errorf ''only got back %d instance sizes, not the requested %d instances''
               [ArgInt (int (length s)), ArgInt (int (length instances))])"
    by (simp add: getInstanceSizes_ranges)
next
  assume ok: "sv (instance_ranges instances) = Inr s \<and> length s = length instances"
  let ?sizes = "fold (store_size instances s) [0..<length instances] Map.empty"
  have res: "getInstanceSizes sv instances = Inr ?sizes"
    using ok by (simp add: getInstanceSizes_ranges)
  have d: "dom ?sizes = set instances"
    using fold_store_size_dom [of "length instances" instances s Map.empty] by simp
  have last: "\<forall>i < length instances.
      (\<forall>j. i < j \<and> j < length instances \<longrightarrow> instances ! j \<noteq> instances ! i) \<longrightarrow>
      ?sizes (instances ! i) = Some (s ! i)"
    using fold_store_size_last [of "length instances" instances _ s Map.empty] by blast
  have "\<forall>i < length instances. ?sizes (instances ! i) = Some (s ! i)" if "distinct instances"
  proof (intro allI impI)
    fix i
    assume i: "i < length instances"
    have "\<forall>j. i < j \<and> j < length instances \<longrightarrow> instances ! j \<noteq> instances ! i"
      using that i by (auto simp add: distinct_conv_nth)
    with last i show "?sizes (instances ! i) = Some (s ! i)" by blast
  qed
  with res d last
  show "\<exists>sizes. getInstanceSizes sv instances = Inr sizes \<and>
         dom sizes = set instances \<and>
         (\<forall>i < length instances.
            (\<forall>j. i < j \<and> j < length instances \<longrightarrow> instances ! j \<noteq> instances ! i) \<longrightarrow>
            sizes (instances ! i) = Some (s ! i)) \<and>
         (distinct instances \<longrightarrow>
            (\<forall>i < length instances. sizes (instances ! i) = Some (s ! i)))"
    by blast
qed

text \<open>
  The three cases at concrete inputs: a failing viewer, two sizes for one instance, and
  two sizes for the two instances 5 and 6.
\<close>

theorem getInstanceSizes_last_wins_witness:
  "getInstanceSizes failing_sizes [5, 6] = Inl (KindError BackendError ''read failed'') \<and>
   getInstanceSizes two_sizes [5] =
     Inl (Errorf ''only got back %d instance sizes, not the requested %d instances''
            [ArgInt 2, ArgInt 1]) \<and>
   (\<exists>sizes. getInstanceSizes two_sizes [5, 6] = Inr sizes \<and> dom sizes = {5, 6} \<and>
      sizes 5 = Some 10 \<and> sizes 6 = Some 20)"
proof -
  have a: "getInstanceSizes failing_sizes [5, 6] = Inl (KindError BackendError ''read failed'')"
    using getInstanceSizes_last_wins
      [of failing_sizes "[5, 6]" "KindError BackendError ''read failed''" "[]"]
    by (simp add: failing_sizes_def)
  have b: "getInstanceSizes two_sizes [5] =
     Inl (Errorf ''only got back %d instance sizes, not the requested %d instances''
            [ArgInt 2, ArgInt 1])"
    using getInstanceSizes_last_wins [of two_sizes "[5]" "KindError BackendError ''read failed''" "[10, 20]"]
    by (simp add: two_sizes_def)
  have prem: "two_sizes (instance_ranges [5, 6]) = Inr [10, 20] \<and>
      length [10, 20 :: uint64] = length [5, 6 :: InstanceID]"
    by (simp add: two_sizes_def)
  from getInstanceSizes_last_wins [of two_sizes "[5, 6]" "KindError BackendError ''read failed''" "[10, 20]"] prem
  obtain sizes where s: "getInstanceSizes two_sizes [5, 6] = Inr sizes"
    "dom sizes = set [5, 6]"
    "distinct [5, 6 :: InstanceID] \<longrightarrow>
       (\<forall>i < length [5, 6 :: InstanceID]. sizes ([5, 6] ! i) = Some ([10, 20] ! i))"
    by blast
  have "distinct [5, 6 :: InstanceID]" by simp
  with s(3) have all: "\<forall>i < length [5, 6 :: InstanceID]. sizes ([5, 6] ! i) = Some ([10, 20] ! i)"
    by blast
  have "sizes ([5, 6] ! 0) = Some ([10, 20] ! 0)"
    using all by (rule allE [of _ 0]) simp
  moreover have "sizes ([5, 6] ! 1) = Some ([10, 20] ! 1)"
    using all by (rule allE [of _ 1]) simp
  ultimately have "sizes 5 = Some 10" "sizes 6 = Some 20" by simp_all
  with s(1,2) a b show ?thesis by auto
qed

text \<open>
  Asked twice about instance 5, with the sizes 10 and 20 coming back, the map holds 20
  for it: the size at position 0 is not the entry of the instance at position 0.
\<close>

theorem getInstanceSizes_duplicate_ids:
  "two_sizes (instance_ranges [5, 5]) = Inr [10, 20] \<and>
   size_of (getInstanceSizes two_sizes [5, 5]) 5 = Some 20 \<and>
   size_of (getInstanceSizes two_sizes [5, 5]) ([5, 5] ! 0) \<noteq> Some ([10, 20] ! 0)"
  by (simp add: getInstanceSizes_def two_sizes_def size_of_def store_size_apply upt_rec)

section \<open>Opening a datastore\<close>

lemma VerifyCompiledTypes_None:
  "VerifyCompiledTypes compiled repos = None \<longleftrightarrow>
   set (referenced_types repos) \<subseteq> set compiled"
proof -
  have "(VerifyCompiledTypes compiled repos = None) =
        (filter (\<lambda>t. t \<notin> set compiled) (referenced_types repos) = [])"
    by (simp add: VerifyCompiledTypes_def split: list.splits)
  also have "\<dots> = (set (referenced_types repos) \<subseteq> set compiled)"
    by (auto simp add: filter_empty_conv)
  finally show ?thesis .
qed

lemma VerifyCompiledTypes_kind:
  "VerifyCompiledTypes compiled repos = Some err \<Longrightarrow>
   \<exists>msg. err = KindError DatatypeUnavailable msg"
  by (auto simp add: VerifyCompiledTypes_def split: list.splits)

lemma Open_closes_nothing: "snd (Open out path) = []"
  by (simp add: Open_def Let_def split: sum.splits option.splits)

lemma Open_no_backend:
  "backend_opens out path = None \<Longrightarrow>
   \<exists>e. fst (Open out path) = (None, Some \<lparr>error = e, ErrorType = ErrorOpening\<rparr>)"
  by (auto simp add: Open_def backend_opens_def split: sum.splits if_splits)

lemma Open_after_backend:
  "backend_opens out path = Some (eng, geng) \<Longrightarrow>
   fst (Open out path) =
     (case Load out eng of
        Inl err \<Rightarrow>
          (None, Some \<lparr>error = Errorf ''Error reading repos: %s'' [ArgErrorText err],
                       ErrorType = ErrorRepos\<rparr>)
      | Inr repos \<Rightarrow>
          (case VerifyCompiledTypes (CompiledTypes out) repos of
             Some err \<Rightarrow>
               (None, Some \<lparr>error = Errorf
                   ''Data are not fully supported by this DVID server: %s'' [ArgErrorText err],
                 ErrorType = ErrorDatatypeUnavailable\<rparr>)
           | None \<Rightarrow>
               (Some \<lparr>Repos = Some repos, engine = eng, kvDB = eng, kvSetter = eng,
                      kvGetter = eng, graphengine = geng, gDB = geng, gSetter = geng,
                      gGetter = geng\<rparr>, None)))"
  by (auto simp add: Open_def backend_opens_def split: sum.splits if_splits option.splits)

text \<open>
  C6. \<^verbatim>\<open>Open\<close> returns a service exactly when it returns no error. When the backend does
  not open the error has the type \<^verbatim>\<open>ErrorOpening\<close>; when it opens and the registry cannot
  be read, \<^verbatim>\<open>ErrorRepos\<close>; when the registry is read and refers to a datatype that is not
  compiled in, \<^verbatim>\<open>ErrorDatatypeUnavailable\<close>, around the DatatypeUnavailable error of the
  verification; and an error of that type has no other cause.
\<close>

theorem Open_error_types:
  "((fst (fst (Open out path)) = None) = (snd (fst (Open out path)) \<noteq> None)) \<and>
   (backend_opens out path = None \<longrightarrow>
      (\<exists>e. fst (Open out path) = (None, Some \<lparr>error = e, ErrorType = ErrorOpening\<rparr>))) \<and>
   (backend_opens out path = Some (eng, geng) \<and> Load out eng = Inl err \<longrightarrow>
      fst (Open out path) =
        (None, Some \<lparr>error = Errorf ''Error reading repos: %s'' [ArgErrorText err],
                     ErrorType = ErrorRepos\<rparr>)) \<and>
   (backend_opens out path = Some (eng, geng) \<and> Load out eng = Inr repos \<and>
    \<not> set (referenced_types repos) \<subseteq> set (CompiledTypes out) \<longrightarrow>
      (\<exists>msg. fst (Open out path) =
        (None, Some \<lparr>error = Errorf ''Data are not fully supported by this DVID server: %s''
                               [ArgErrorText (KindError DatatypeUnavailable msg)],
                     ErrorType = ErrorDatatypeUnavailable\<rparr>))) \<and>
   (snd (fst (Open out path)) = Some oe \<and> ErrorType oe = ErrorDatatypeUnavailable \<longrightarrow>
      (\<exists>eng geng repos. backend_opens out path = Some (eng, geng) \<and>
         Load out eng = Inr repos \<and>
         \<not> set (referenced_types repos) \<subseteq> set (CompiledTypes out)))"
proof (intro conjI impI)
  show "(fst (fst (Open out path)) = None) = (snd (fst (Open out path)) \<noteq> None)"
    by (simp add: Open_def Let_def split: sum.splits option.splits)
next
  assume "backend_opens out path = None"
  then show "\<exists>e. fst (Open out path) = (None, Some \<lparr>error = e, ErrorType = ErrorOpening\<rparr>)"
    by (rule Open_no_backend)
next
  assume "backend_opens out path = Some (eng, geng) \<and> Load out eng = Inl err"
  then show "fst (Open out path) =
        (None, Some \<lparr>error = Errorf ''Error reading repos: %s'' [ArgErrorText err],
                     ErrorType = ErrorRepos\<rparr>)"
    by (simp add: Open_after_backend)
next
  assume a: "backend_opens out path = Some (eng, geng) \<and> Load out eng = Inr repos \<and>
    \<not> set (referenced_types repos) \<subseteq> set (CompiledTypes out)"
  then obtain e where e: "VerifyCompiledTypes (CompiledTypes out) repos = Some e"
    using VerifyCompiledTypes_None [of "CompiledTypes out" repos]
    by (cases "VerifyCompiledTypes (CompiledTypes out) repos") auto
  then obtain msg where "e = KindError DatatypeUnavailable msg"
    using VerifyCompiledTypes_kind by blast
  with a e show "\<exists>msg. fst (Open out path) =
        (None, Some \<lparr>error = Errorf ''Data are not fully supported by this DVID server: %s''
                               [ArgErrorText (KindError DatatypeUnavailable msg)],
                     ErrorType = ErrorDatatypeUnavailable\<rparr>)"
    by (simp add: Open_after_backend)
next
  assume a: "snd (fst (Open out path)) = Some oe \<and> ErrorType oe = ErrorDatatypeUnavailable"
  show "\<exists>eng geng repos. backend_opens out path = Some (eng, geng) \<and>
         Load out eng = Inr repos \<and>
         \<not> set (referenced_types repos) \<subseteq> set (CompiledTypes out)"
  proof (cases "backend_opens out path")
    case None
    then show ?thesis using Open_no_backend [of out path] a by auto
  next
    case (Some p)
    obtain eng geng where p: "p = (eng, geng)" by (cases p)
    show ?thesis
    proof (cases "Load out eng")
      case (Inl err)
      then show ?thesis using Some p a by (auto simp add: Open_after_backend)
    next
      case (Inr repos)
      then show ?thesis
        using Some p a VerifyCompiledTypes_None [of "CompiledTypes out" repos]
        by (cases "VerifyCompiledTypes (CompiledTypes out) repos")
           (auto simp add: Open_after_backend)
    qed
  qed
qed

lemma backend_opens_ok:
  "backend_opens outside_ok p = Some (ordered_engine, graph_engine)"
  "backend_opens outside_foo_v2 p = Some (ordered_engine, graph_engine)"
  "backend_opens outside_unreadable p = Some (ordered_engine, graph_engine)"
  "backend_opens outside_no_store p = None"
  "backend_opens outside_plain p = None"
  by (simp_all add: backend_opens_def outside_ok_def outside_foo_v2_def outside_unreadable_def
      outside_no_store_def outside_plain_def ordered_engine_def graph_engine_def
      plain_engine_def assert_type_def)

text \<open>
  The three failures at concrete surroundings: a store that does not open, a registry
  that cannot be read, and a registry that refers to foo v3 where foo v2 is linked in.
\<close>

theorem Open_error_types_witness:
  "(\<exists>e. fst (Open outside_no_store ''/tmp/ds1'') =
      (None, Some \<lparr>error = e, ErrorType = ErrorOpening\<rparr>)) \<and>
   fst (Open outside_unreadable ''/tmp/ds1'') =
     (None, Some \<lparr>error = Errorf ''Error reading repos: %s''
                     [ArgErrorText (KindError RegistryError ''corrupt registry'')],
                   ErrorType = ErrorRepos\<rparr>) \<and>
   (\<exists>msg. fst (Open outside_foo_v2 ''/tmp/ds1'') =
      (None, Some \<lparr>error = Errorf ''Data are not fully supported by this DVID server: %s''
                      [ArgErrorText (KindError DatatypeUnavailable msg)],
                    ErrorType = ErrorDatatypeUnavailable\<rparr>))"
proof -
  have a: "\<exists>e. fst (Open outside_no_store ''/tmp/ds1'') =
      (None, Some \<lparr>error = e, ErrorType = ErrorOpening\<rparr>)"
    using Open_error_types [of outside_no_store "''/tmp/ds1''"] backend_opens_ok(4)
    by blast
  have "Load outside_unreadable ordered_engine = Inl (KindError RegistryError ''corrupt registry'')"
    by (simp add: outside_unreadable_def outside_ok_def)
  then have b: "fst (Open outside_unreadable ''/tmp/ds1'') =
     (None, Some \<lparr>error = Errorf ''Error reading repos: %s''
                     [ArgErrorText (KindError RegistryError ''corrupt registry'')],
                   ErrorType = ErrorRepos\<rparr>)"
    using Open_error_types [of outside_unreadable "''/tmp/ds1''" ordered_engine graph_engine
        "KindError RegistryError ''corrupt registry''"] backend_opens_ok(3)
    by blast
  have "Load outside_foo_v2 ordered_engine = Inr registry_foo_v3"
    "\<not> set (referenced_types registry_foo_v3) \<subseteq> set (CompiledTypes outside_foo_v2)"
    by (simp_all add: outside_foo_v2_def outside_ok_def referenced_types_def registry_foo_v3_def)
  then have c: "\<exists>msg. fst (Open outside_foo_v2 ''/tmp/ds1'') =
      (None, Some \<lparr>error = Errorf ''Data are not fully supported by this DVID server: %s''
                      [ArgErrorText (KindError DatatypeUnavailable msg)],
                    ErrorType = ErrorDatatypeUnavailable\<rparr>)"
    using Open_error_types [of outside_foo_v2 "''/tmp/ds1''" ordered_engine graph_engine _
        registry_foo_v3] backend_opens_ok(2)
    by blast
  from a b c show ?thesis by blast
qed

section \<open>Where the capabilities of the backend are checked\<close>

lemma Open_missing_capability:
  "NewKeyValueStore out path False = Inr eng \<Longrightarrow>
   \<not> (assert_type eng OrderedKeyValueGetter \<and> assert_type eng OrderedKeyValueSetter \<and>
      assert_type eng OrderedKeyValueDB) \<Longrightarrow>
   \<exists>e. fst (Open out path) = (None, Some \<lparr>error = e, ErrorType = ErrorOpening\<rparr>)"
  by (rule Open_no_backend) (auto simp add: backend_opens_def)

lemma Open_service_capabilities:
  assumes "fst (fst (Open out path)) = Some s"
  shows "assert_type (kvGetter s) OrderedKeyValueGetter \<and>
         assert_type (kvSetter s) OrderedKeyValueSetter \<and>
         assert_type (kvDB s) OrderedKeyValueDB \<and>
         assert_type (gSetter s) GraphSetter \<and> assert_type (gGetter s) GraphGetter \<and>
         assert_type (gDB s) GraphDB"
proof (cases "backend_opens out path")
  case None
  then show ?thesis using Open_no_backend [of out path] assms by auto
next
  case (Some p)
  obtain eng geng where p: "p = (eng, geng)" by (cases p)
  have caps: "assert_type eng OrderedKeyValueGetter \<and> assert_type eng OrderedKeyValueSetter \<and>
      assert_type eng OrderedKeyValueDB \<and> assert_type geng GraphSetter \<and>
      assert_type geng GraphGetter \<and> assert_type geng GraphDB"
    using Some p by (auto simp add: backend_opens_def split: sum.splits if_splits)
  show ?thesis
    using assms Some p caps
    by (auto simp add: Open_after_backend split: sum.splits option.splits)
qed

text \<open>
  C3, as the code has it. The ordered key-value interfaces are checked by \<^verbatim>\<open>Open\<close>: a
  key-value engine that lacks one of them makes \<^verbatim>\<open>Open\<close> fail with \<^verbatim>\<open>ErrorOpening\<close> and
  without a service, and the engines of a service that \<^verbatim>\<open>Open\<close> returns satisfy the
  ordered and the graph interfaces. The accessors of the ordered and graph handles
  return the handle kept at open and a nil error. Only \<^verbatim>\<open>Batcher\<close> is checked when the
  handle is asked for: it returns the setter when its engine supports batches, and
  otherwise no handle and the error "does not support batch write".
\<close>

theorem capabilities_checked_at_open:
  "(NewKeyValueStore out path False = Inr eng \<and>
    \<not> (assert_type eng OrderedKeyValueGetter \<and> assert_type eng OrderedKeyValueSetter \<and>
       assert_type eng OrderedKeyValueDB) \<longrightarrow>
      (\<exists>e. fst (Open out path) = (None, Some \<lparr>error = e, ErrorType = ErrorOpening\<rparr>))) \<and>
   (fst (fst (Open out path)) = Some s' \<longrightarrow>
      assert_type (kvGetter s') OrderedKeyValueGetter \<and>
      assert_type (kvSetter s') OrderedKeyValueSetter \<and>
      assert_type (kvDB s') OrderedKeyValueDB \<and>
      assert_type (gSetter s') GraphSetter \<and> assert_type (gGetter s') GraphGetter \<and>
      assert_type (gDB s') GraphDB) \<and>
   Service_OrderedKeyValueDB s = (kvDB s, None) \<and>
   Service_OrderedKeyValueGetter s = (kvGetter s, None) \<and>
   Service_OrderedKeyValueSetter s = (kvSetter s, None) \<and>
   Service_GraphDB s = (gDB s, None) \<and>
   (assert_type (kvSetter s) Batcher \<longrightarrow> Service_Batcher s = (Some (kvSetter s), None)) \<and>
   (\<not> assert_type (kvSetter s) Batcher \<longrightarrow>
      Service_Batcher s =
        (None, Some (Errorf ''DVID key-value store does not support batch write'' [])))"
  using Open_missing_capability [of out path eng] Open_service_capabilities [of out path s']
  by (simp add: Service_OrderedKeyValueDB_def Service_OrderedKeyValueGetter_def
      Service_OrderedKeyValueSetter_def Service_GraphDB_def Service_Batcher_def)

text \<open>
  At concrete inputs: the plain engine fails to open; the ordered engine opens and its
  service has the ordered and graph capabilities; asked for a batcher, the service over
  an engine without batches gives the error, the one over an engine with batches the
  handle.
\<close>

theorem capabilities_checked_at_open_witness:
  "(\<exists>e. fst (Open outside_plain ''/tmp/ds1'') =
      (None, Some \<lparr>error = e, ErrorType = ErrorOpening\<rparr>)) \<and>
   fst (fst (Open outside_ok ''/tmp/ds1'')) = Some service_ok \<and>
   assert_type (kvDB service_ok) OrderedKeyValueDB \<and>
   Service_OrderedKeyValueDB service_ok = (ordered_engine, None) \<and>
   Service_Batcher service_ok =
     (None, Some (Errorf ''DVID key-value store does not support batch write'' [])) \<and>
   Service_Batcher service_batch = (Some (kvSetter service_batch), None)"
proof -
  have plain: "NewKeyValueStore outside_plain ''/tmp/ds1'' False = Inr plain_engine \<and>
      \<not> (assert_type plain_engine OrderedKeyValueGetter \<and>
         assert_type plain_engine OrderedKeyValueSetter \<and>
         assert_type plain_engine OrderedKeyValueDB)"
    by (simp add: outside_plain_def outside_ok_def plain_engine_def assert_type_def)
  have a: "\<exists>e. fst (Open outside_plain ''/tmp/ds1'') =
      (None, Some \<lparr>error = e, ErrorType = ErrorOpening\<rparr>)"
    using capabilities_checked_at_open [of outside_plain "''/tmp/ds1''" plain_engine] plain
    by blast
  have opened: "fst (fst (Open outside_ok ''/tmp/ds1'')) = Some service_ok"
    by (simp add: Open_def outside_ok_def ordered_engine_def graph_engine_def assert_type_def
        VerifyCompiledTypes_def referenced_types_def registry_foo_v3_def service_ok_def)
  have b: "assert_type (kvDB service_ok) OrderedKeyValueDB"
    using capabilities_checked_at_open [of outside_ok "''/tmp/ds1''" _ service_ok] opened
    by blast
  have c: "Service_OrderedKeyValueDB service_ok = (ordered_engine, None)"
    using capabilities_checked_at_open [of _ _ _ _ service_ok]
    by (simp add: service_ok_def)
  have no_batch: "\<not> assert_type (kvSetter service_ok) Batcher"
    by (simp add: service_ok_def ordered_engine_def assert_type_def)
  have d: "Service_Batcher service_ok =
     (None, Some (Errorf ''DVID key-value store does not support batch write'' []))"
    using capabilities_checked_at_open [of _ _ _ _ service_ok] no_batch by blast
  have batch: "assert_type (kvSetter service_batch) Batcher"
    by (simp add: service_batch_def service_ok_def ordered_engine_def assert_type_def)
  have e: "Service_Batcher service_batch = (Some (kvSetter service_batch), None)"
    using capabilities_checked_at_open [of _ _ _ _ service_batch] batch by blast
  from a opened b c d e show ?thesis by blast
qed

text \<open>
  A backend with only the plain getter and setter: \<^verbatim>\<open>Open\<close> does not succeed on it, it
  returns no service and an error of type \<^verbatim>\<open>ErrorOpening\<close>.
\<close>

theorem Open_plain_engine_fails:
  "NewKeyValueStore outside_plain ''/tmp/ds1'' False = Inr plain_engine \<and>
   implements plain_engine = [KeyValueGetter, KeyValueSetter] \<and>
   Open outside_plain ''/tmp/ds1'' =
     ((None, Some \<lparr>error = Errorf ''Opened datastore cannot get key-value pairs.'' [],
                   ErrorType = ErrorOpening\<rparr>), [])"
  by (simp add: Open_def outside_plain_def outside_ok_def plain_engine_def assert_type_def)

section \<open>Which engines are closed\<close>

text \<open>
  C8. Every way out of the life of a service should close the engines that were opened.
  With both engines open and a registry that cannot be read, \<^verbatim>\<open>Open\<close> returns its error
  and has closed no engine, where \<^verbatim>\<open>Init\<close> in the same surroundings closes both. On the
  service that \<^verbatim>\<open>Open\<close> returns, \<^verbatim>\<open>Shutdown\<close> closes the key-value engine only, not the
  graph engine, which is another engine.
\<close>

theorem engines_left_open:
  "Open outside_unreadable ''/tmp/ds1'' =
     ((None, Some \<lparr>error = Errorf ''Error reading repos: %s''
                      [ArgErrorText (KindError RegistryError ''corrupt registry'')],
                    ErrorType = ErrorRepos\<rparr>), []) \<and>
   fst (snd (Init outside_unreadable ''/tmp/ds1'' False empty_backend)) =
     [graph_engine, ordered_engine] \<and>
   Open outside_ok ''/tmp/ds1'' = ((Some service_ok, None), []) \<and>
   Shutdown service_ok = [ordered_engine] \<and>
   graphengine service_ok = graph_engine \<and>
   graph_engine \<noteq> ordered_engine"
  by (simp add: Open_def Init_def Shutdown_def outside_unreadable_def outside_ok_def
      ordered_engine_def graph_engine_def assert_type_def VerifyCompiledTypes_def
      referenced_types_def registry_foo_v3_def service_ok_def Repos_Put_def
      write_backend_def empty_backend_def new_Repos_def)

section \<open>Mutations of the service and their persistence\<close>

lemma write_backend_result:
  "write_backend f b =
     (case next_write_fails b of
        Some msg \<Rightarrow> (Some (KindError BackendError msg), b\<lparr>outcomes := tl (outcomes b)\<rparr>)
      | None \<Rightarrow> (None, f (b\<lparr>outcomes := tl (outcomes b)\<rparr>)))"
  by (cases b) (simp add: write_backend_def next_write_fails_def split: list.splits option.splits)

lemma find_add_child:
  "find (\<lambda>n. NodeUUID n = parent) (map (add_child parent u) dag @ rest) =
     (case find (\<lambda>n. NodeUUID n = parent) dag of
        Some node \<Rightarrow> Some (node\<lparr>Children := Children node @ [u]\<rparr>)
      | None \<Rightarrow> find (\<lambda>n. NodeUUID n = parent) rest)"
  by (induction dag) (simp_all add: add_child_def)

lemma RepoFromUUID_in_list:
  "RepoFromUUID u repos = Inr repo \<Longrightarrow> repo \<in> set (list repos)"
  by (auto simp add: RepoFromUUID_def find_Some_iff split: option.splits)

lemma replace_repo_in_list:
  "repo \<in> set (list repos) \<Longrightarrow> RepoID repo1 = RepoID repo \<Longrightarrow> repo1 \<in> set (list (replace_repo repo1 repos))"
  by (force simp add: replace_repo_def)

lemma newChild_locked:
  assumes "RepoFromUUID parent repos = Inr repo"
    "find (\<lambda>n. NodeUUID n = parent) (DAG repo) = Some node" "Locked node"
  shows "newChild u parent repos =
    Inr (repo\<lparr>VersionMap := AList.update u (lastVersionID repos + 1) (VersionMap repo),
              DAG := map (add_child parent u) (DAG repo) @
                [\<lparr>NodeUUID = u, NodeVersionID = lastVersionID repos + 1, Parents = [parent],
                  Children = [], Locked = False\<rparr>]\<rparr>, u,
         (replace_repo (repo\<lparr>VersionMap := AList.update u (lastVersionID repos + 1) (VersionMap repo),
              DAG := map (add_child parent u) (DAG repo) @
                [\<lparr>NodeUUID = u, NodeVersionID = lastVersionID repos + 1, Parents = [parent],
                  Children = [], Locked = False\<rparr>]\<rparr>) repos)\<lparr>lastVersionID := lastVersionID repos + 1\<rparr>)"
  using assms by (simp add: newChild_def Let_def)

lemma newChild_unlocked:
  assumes "RepoFromUUID parent repos = Inr repo"
    "find (\<lambda>n. NodeUUID n = parent) (DAG repo) = Some node" "\<not> Locked node"
  shows "newChild u parent repos = Inl ('''', KindError LockViolation parent)"
  using assms by (simp add: newChild_def Let_def)

lemma newRepo_result:
  "newRepo fresh repos = Inr (repo, repos1) \<Longrightarrow>
   Root repo = fresh \<and> RepoID repo = lastRepoID repos + 1 \<and>
   list repos1 = list repos @ [repo] \<and> repos1 \<noteq> repos"
proof -
  assume a: "newRepo fresh repos = Inr (repo, repos1)"
  then have l: "list repos1 = list repos @ [repo]"
    by (auto simp add: newRepo_def Let_def)
  then have "repos1 \<noteq> repos" by auto
  with a l show ?thesis by (auto simp add: newRepo_def Let_def)
qed

text \<open>
  C4, as the code has it. \<^verbatim>\<open>NewRepo\<close> does not roll back. When the registry was put and
  putting the descriptor of the new repository fails, the call returns the root, the
  repo-id and the error of that write as it is, a BackendError; the registry in memory is
  the one \<^verbatim>\<open>newRepo\<close> left, with the new repository at the end of its list, and the
  registry written to the backend stays written. When already the put of the registry
  fails, the call returns that error and the registry in memory keeps the new repository
  as well.
\<close>

theorem NewRepo_no_rollback:
  "(Repos s = Some repos \<and> newRepo fresh repos = Inr (repo, repos1) \<and>
    outcomes b = None # Some msg # rest \<longrightarrow>
      NewRepo fresh s b =
        ((fresh, lastRepoID repos + 1, Some (KindError BackendError msg)),
         s\<lparr>Repos := Some repos1\<rparr>, b\<lparr>registry := Some repos1, outcomes := rest\<rparr>) \<and>
      list repos1 = list repos @ [repo] \<and> Repos (s\<lparr>Repos := Some repos1\<rparr>) \<noteq> Repos s) \<and>
   (Repos s = Some repos \<and> newRepo fresh repos = Inr (repo, repos1) \<and>
    outcomes b = Some msg # rest \<longrightarrow>
      NewRepo fresh s b =
        (('''', 0, Some (KindError BackendError msg)),
         s\<lparr>Repos := Some repos1\<rparr>, b\<lparr>outcomes := rest\<rparr>) \<and>
      list repos1 = list repos @ [repo] \<and> Repos (s\<lparr>Repos := Some repos1\<rparr>) \<noteq> Repos s)"
proof (intro conjI impI)
  assume a: "Repos s = Some repos \<and> newRepo fresh repos = Inr (repo, repos1) \<and>
    outcomes b = None # Some msg # rest"
  then have r: "Root repo = fresh" "RepoID repo = lastRepoID repos + 1"
    "list repos1 = list repos @ [repo]" "repos1 \<noteq> repos"
    using newRepo_result [of fresh repos repo repos1] by simp_all
  show "NewRepo fresh s b =
        ((fresh, lastRepoID repos + 1, Some (KindError BackendError msg)),
         s\<lparr>Repos := Some repos1\<rparr>, b\<lparr>registry := Some repos1, outcomes := rest\<rparr>)"
    using a r(1,2)
    by (simp add: NewRepo_def Repos_Put_def Repo_Put_def write_backend_def)
  show "list repos1 = list repos @ [repo]" by (rule r(3))
  show "Repos (s\<lparr>Repos := Some repos1\<rparr>) \<noteq> Repos s" using a r(4) by simp
next
  assume a: "Repos s = Some repos \<and> newRepo fresh repos = Inr (repo, repos1) \<and>
    outcomes b = Some msg # rest"
  then have r: "list repos1 = list repos @ [repo]" "repos1 \<noteq> repos"
    using newRepo_result [of fresh repos repo repos1] by simp_all
  show "NewRepo fresh s b =
        (('''', 0, Some (KindError BackendError msg)),
         s\<lparr>Repos := Some repos1\<rparr>, b\<lparr>outcomes := rest\<rparr>)"
    using a by (simp add: NewRepo_def Repos_Put_def write_backend_def)
  show "list repos1 = list repos @ [repo]" by (rule r(1))
  show "Repos (s\<lparr>Repos := Some repos1\<rparr>) \<noteq> Repos s" using a r(2) by simp
qed

text \<open>
  On an empty registry, with a backend whose second write fails, and with one whose
  first write fails.
\<close>

theorem NewRepo_no_rollback_witness:
  "fst (NewRepo ''ab12'' service_empty backend_second_fails) =
     (''ab12'', 1, Some (KindError BackendError ''disk full'')) \<and>
   Repos (fst (snd (NewRepo ''ab12'' service_empty backend_second_fails))) \<noteq>
     Repos service_empty \<and>
   fst (NewRepo ''ab12'' service_empty backend_first_fails) =
     ('''', 0, Some (KindError BackendError ''disk full''))"
proof -
  obtain repo repos1 where n: "newRepo ''ab12'' new_Repos = Inr (repo, repos1)"
    by (simp add: newRepo_def Let_def)
  have s: "Repos service_empty = Some new_Repos"
    by (simp add: service_empty_def)
  have o2: "outcomes backend_second_fails = None # Some ''disk full'' # []"
    by (simp add: backend_second_fails_def)
  have o1: "outcomes backend_first_fails = Some ''disk full'' # []"
    by (simp add: backend_first_fails_def)
  have l: "lastRepoID new_Repos + 1 = 1"
    by (simp add: new_Repos_def)
  have "NewRepo ''ab12'' service_empty backend_second_fails =
        ((''ab12'', lastRepoID new_Repos + 1, Some (KindError BackendError ''disk full'')),
         service_empty\<lparr>Repos := Some repos1\<rparr>,
         backend_second_fails\<lparr>registry := Some repos1, outcomes := []\<rparr>) \<and>
      Repos (service_empty\<lparr>Repos := Some repos1\<rparr>) \<noteq> Repos service_empty"
    using NewRepo_no_rollback [of service_empty new_Repos "''ab12''" repo repos1
        backend_second_fails "''disk full''" "[]"] s n o2
    by blast
  moreover have "NewRepo ''ab12'' service_empty backend_first_fails =
        (('''', 0, Some (KindError BackendError ''disk full'')),
         service_empty\<lparr>Repos := Some repos1\<rparr>, backend_first_fails\<lparr>outcomes := []\<rparr>)"
    using NewRepo_no_rollback [of service_empty new_Repos "''ab12''" repo repos1
        backend_first_fails "''disk full''" "[]"] s n o1
    by blast
  ultimately show ?thesis using l by simp
qed

text \<open>
  The registry was put, the put of the descriptor fails: the error is the BackendError,
  and the repositories in memory are not the ones from before the call.
\<close>

theorem NewRepo_keeps_new_repo:
  "snd (snd (fst (NewRepo ''ab12'' service_empty backend_second_fails))) =
     Some (KindError BackendError ''disk full'') \<and>
   Repos (fst (snd (NewRepo ''ab12'' service_empty backend_second_fails))) \<noteq>
     Repos service_empty"
  by (simp add: NewRepo_def newRepo_def Repos_Put_def Repo_Put_def write_backend_def
      service_empty_def service_ok_def backend_second_fails_def empty_backend_def
      new_Repos_def Let_def)

lemma snd_update_subset: "snd ` set (AList.update k v al) \<subseteq> insert v (snd ` set al)"
  by (induction al) auto

lemma next_id_above:
  fixes l :: VersionID
  assumes "l < MaxVersionID" "v \<le> l"
  shows "v < l + 1"
proof -
  have "l < l + 1"
    using assms(1) by (simp add: MaxVersionID_def word_less_nat_alt unat_word_ariths)
  with assms(2) show ?thesis by simp
qed

lemma set_versions_in_use:
  "set (versions_in_use repos) =
   (\<Union>r \<in> set (list repos). snd ` set (VersionMap r) \<union> NodeVersionID ` set (DAG r))"
  by (auto simp add: versions_in_use_def)

lemma versions_after_replace:
  assumes repo: "repo \<in> set (list repos)"
    and vm: "snd ` set (VersionMap repo1) \<subseteq> insert vid (snd ` set (VersionMap repo))"
    and dag: "NodeVersionID ` set (DAG repo1) \<subseteq> insert vid (NodeVersionID ` set (DAG repo))"
    and v: "v \<in> set (versions_in_use
      (repos\<lparr>list := map (\<lambda>r. if RepoID r = RepoID repo then repo1 else r) (list repos),
             lastVersionID := l\<rparr>))"
  shows "v = vid \<or> v \<in> set (versions_in_use repos)"
proof -
  let ?f = "\<lambda>r. if RepoID r = RepoID repo then repo1 else r"
  have l: "list (repos\<lparr>list := map ?f (list repos), lastVersionID := l\<rparr>) =
      map ?f (list repos)"
    by simp
  from v obtain r' where r': "r' \<in> set (map ?f (list repos))"
    and vr': "v \<in> snd ` set (VersionMap r') \<union> NodeVersionID ` set (DAG r')"
    unfolding set_versions_in_use l by blast
  from r' obtain r where r: "r \<in> set (list repos)" and "r' = ?f r"
    unfolding set_map by blast
  with vr' have vr: "v \<in> snd ` set (VersionMap (?f r)) \<union> NodeVersionID ` set (DAG (?f r))"
    by simp
  show ?thesis
  proof (cases "RepoID r = RepoID repo")
    case True
    with vr have "v \<in> snd ` set (VersionMap repo1) \<union> NodeVersionID ` set (DAG repo1)"
      by simp
    with vm dag have "v = vid \<or>
        v \<in> snd ` set (VersionMap repo) \<union> NodeVersionID ` set (DAG repo)"
      by blast
    with repo show ?thesis unfolding set_versions_in_use by blast
  next
    case False
    with vr have "v \<in> snd ` set (VersionMap r) \<union> NodeVersionID ` set (DAG r)"
      by simp
    with r show ?thesis unfolding set_versions_in_use by blast
  qed
qed

lemma versions_of_child_dag:
  "NodeVersionID ` set (map (\<lambda>n. if NodeUUID n = parent
        then n\<lparr>Children := Children n @ [fresh]\<rparr> else n) dag @
      [\<lparr>NodeUUID = fresh, NodeVersionID = vid, Parents = ps, Children = cs, Locked = l\<rparr>])
   \<subseteq> insert vid (NodeVersionID ` set dag)"
proof -
  have "map NodeVersionID (map (\<lambda>n. if NodeUUID n = parent
        then n\<lparr>Children := Children n @ [fresh]\<rparr> else n) dag) = map NodeVersionID dag"
    by (simp add: comp_def if_distrib [of NodeVersionID])
  then have "set (map NodeVersionID (map (\<lambda>n. if NodeUUID n = parent
        then n\<lparr>Children := Children n @ [fresh]\<rparr> else n) dag)) =
      set (map NodeVersionID dag)"
    by (rule arg_cong)
  then have "NodeVersionID ` set (map (\<lambda>n. if NodeUUID n = parent
        then n\<lparr>Children := Children n @ [fresh]\<rparr> else n) dag) = NodeVersionID ` set dag"
    by (simp only: set_map)
  then show ?thesis by auto
qed

text \<open>
  No version-id in use is above the last allocated one: this holds for the empty
  registry and is kept by \<^verbatim>\<open>newRepo\<close>, as long as the largest value is not reached.
\<close>

lemma versions_bounded_new_Repos:
  "\<forall>v \<in> set (versions_in_use new_Repos). v \<le> lastVersionID new_Repos"
  by (simp add: versions_in_use_def new_Repos_def)

lemma versions_bounded_newRepo:
  assumes "\<forall>v \<in> set (versions_in_use repos). v \<le> lastVersionID repos"
    and "lastVersionID repos < MaxVersionID"
    and "newRepo u repos = Inr (repo, repos1)"
  shows "lastVersionID repos + 1 \<notin> set (versions_in_use repos) \<and>
         (\<forall>v \<in> set (versions_in_use repos1). v \<le> lastVersionID repos1)"
proof -
  have above: "v < lastVersionID repos + 1" if "v \<in> set (versions_in_use repos)" for v
    using assms(1,2) that next_id_above [of "lastVersionID repos" v] by blast
  from assms(3) have r: "list repos1 = list repos @ [repo]"
    "VersionMap repo = [(u, lastVersionID repos + 1)]"
    "set (map NodeVersionID (DAG repo)) = {lastVersionID repos + 1}"
    "lastVersionID repos1 = lastVersionID repos + 1"
    by (auto simp add: newRepo_def Let_def)
  from r(3) have dag: "NodeVersionID ` set (DAG repo) = {lastVersionID repos + 1}"
    by (simp only: set_map)
  have "set (versions_in_use repos1) =
      insert (lastVersionID repos + 1) (set (versions_in_use repos))"
    unfolding set_versions_in_use r(1) using r(2) dag by auto
  with above r(4) show ?thesis by fastforce
qed

text \<open>
  C5, as the code has it. For a parent version of a repository of the service,
  \<^verbatim>\<open>NewVersion\<close> returns a LockViolation error exactly when the node of the parent is
  unlocked, and then changes nothing. When the parent is locked, the version-id after the
  last allocated one is taken, the child is appended to the children of the parent, to
  the version map and to the graph of that repository, everything else in the registry
  staying as it was, and the call returns the UUID of the child with the result of
  putting the repository: no error and the descriptor stored when the write succeeds,
  and otherwise the BackendError of the write, the child staying in memory. Where no
  version-id in use is above the last allocated one and that one is below the largest,
  the version-id of the child was not in use, and the same holds again afterwards.
\<close>

theorem NewVersion_lock:
  "Repos s = Some repos \<and> RepoFromUUID parent repos = Inr repo \<and>
   find (\<lambda>n. NodeUUID n = parent) (DAG repo) = Some node \<longrightarrow>
   ((\<exists>m. snd (fst (NewVersion fresh parent s b)) = Some (KindError LockViolation m)) =
      (\<not> Locked node)) \<and>
   (\<not> Locked node \<longrightarrow>
      NewVersion fresh parent s b = (('''', Some (KindError LockViolation parent)), s, b)) \<and>
   (Locked node \<longrightarrow>
      (let vid = lastVersionID repos + 1;
           child = \<lparr>NodeUUID = fresh, NodeVersionID = vid, Parents = [parent],
                    Children = [], Locked = False\<rparr>;
           repo1 = repo\<lparr>VersionMap := AList.update fresh vid (VersionMap repo),
                         DAG := map (\<lambda>n. if NodeUUID n = parent
                                          then n\<lparr>Children := Children n @ [fresh]\<rparr> else n)
                                  (DAG repo) @ [child]\<rparr>;
           repos1 = repos\<lparr>list := map (\<lambda>r. if RepoID r = RepoID repo then repo1 else r)
                                       (list repos),
                           lastVersionID := vid\<rparr>
       in NewVersion fresh parent s b =
            ((fresh, map_option (KindError BackendError) (next_write_fails b)),
             s\<lparr>Repos := Some repos1\<rparr>,
             (case next_write_fails b of
                Some msg \<Rightarrow> b\<lparr>outcomes := tl (outcomes b)\<rparr>
              | None \<Rightarrow> b\<lparr>outcomes := tl (outcomes b),
                          descriptors := AList.update (RepoID repo) repo1 (descriptors b)\<rparr>)) \<and>
          map_of (VersionMap repo1) = (map_of (VersionMap repo))(fresh \<mapsto> vid) \<and>
          repo1 \<in> set (list repos1) \<and>
          find (\<lambda>n. NodeUUID n = parent) (DAG repo1) =
            Some (node\<lparr>Children := Children node @ [fresh]\<rparr>) \<and>
          ((\<forall>v \<in> set (versions_in_use repos). v \<le> lastVersionID repos) \<and>
           lastVersionID repos < MaxVersionID \<longrightarrow>
             vid \<notin> set (versions_in_use repos) \<and>
             (\<forall>v \<in> set (versions_in_use repos1). v \<le> lastVersionID repos1))))"
proof (intro impI)
  assume a: "Repos s = Some repos \<and> RepoFromUUID parent repos = Inr repo \<and>
   find (\<lambda>n. NodeUUID n = parent) (DAG repo) = Some node"
  let ?vid = "lastVersionID repos + 1"
  let ?child = "\<lparr>NodeUUID = fresh, NodeVersionID = ?vid, Parents = [parent],
                  Children = [], Locked = False\<rparr>"
  let ?repo1 = "repo\<lparr>VersionMap := AList.update fresh ?vid (VersionMap repo),
              DAG := map (\<lambda>n. if NodeUUID n = parent
                               then n\<lparr>Children := Children n @ [fresh]\<rparr> else n)
                       (DAG repo) @ [?child]\<rparr>"
  let ?repos1 = "repos\<lparr>list := map (\<lambda>r. if RepoID r = RepoID repo then ?repo1 else r)
                                    (list repos),
                        lastVersionID := ?vid\<rparr>"
  let ?b1 = "case next_write_fails b of
                Some msg \<Rightarrow> b\<lparr>outcomes := tl (outcomes b)\<rparr>
              | None \<Rightarrow> b\<lparr>outcomes := tl (outcomes b),
                          descriptors := AList.update (RepoID repo) ?repo1 (descriptors b)\<rparr>"
  have in_repos: "repo \<in> set (list repos)"
    using a RepoFromUUID_in_list [of parent repos repo] by simp
  have add: "add_child parent fresh = (\<lambda>n. if NodeUUID n = parent
                               then n\<lparr>Children := Children n @ [fresh]\<rparr> else n)"
    by (rule ext) (simp add: add_child_def)
  have unlocked: "NewVersion fresh parent s b = (('''', Some (KindError LockViolation parent)), s, b)"
    if "\<not> Locked node"
    using a that newChild_unlocked [of parent repos repo node fresh]
    by (simp add: NewVersion_def)
  have locked: "NewVersion fresh parent s b =
           ((fresh, map_option (KindError BackendError) (next_write_fails b)),
            s\<lparr>Repos := Some ?repos1\<rparr>, ?b1)"
    if "Locked node"
    using a that newChild_locked [of parent repos repo node fresh]
    by (simp add: NewVersion_def Repo_Put_def write_backend_result replace_repo_def add
        split: option.splits)
  have in_list: "?repo1 \<in> set (list ?repos1)"
    using in_repos by force
  have vm: "map_of (VersionMap ?repo1) = (map_of (VersionMap repo))(fresh \<mapsto> ?vid)"
    by (simp add: update_conv')
  have ch: "find (\<lambda>n. NodeUUID n = parent) (DAG ?repo1) =
           Some (node\<lparr>Children := Children node @ [fresh]\<rparr>)"
    using a find_add_child [of parent fresh "DAG repo" "[?child]"] by (simp add: add)
  have unused: "?vid \<notin> set (versions_in_use repos) \<and>
      (\<forall>v \<in> set (versions_in_use ?repos1). v \<le> lastVersionID ?repos1)"
    if inv: "(\<forall>v \<in> set (versions_in_use repos). v \<le> lastVersionID repos) \<and>
           lastVersionID repos < MaxVersionID"
  proof
    show "?vid \<notin> set (versions_in_use repos)"
    proof
      assume "?vid \<in> set (versions_in_use repos)"
      with inv have "?vid \<le> lastVersionID repos" by blast
      with inv next_id_above [of "lastVersionID repos" ?vid] show False by simp
    qed
    show "\<forall>v \<in> set (versions_in_use ?repos1). v \<le> lastVersionID ?repos1"
    proof
      fix v
      assume "v \<in> set (versions_in_use ?repos1)"
      moreover have "snd ` set (VersionMap ?repo1) \<subseteq>
          insert ?vid (snd ` set (VersionMap repo))"
        using snd_update_subset [of fresh ?vid "VersionMap repo"] by simp
      moreover have "NodeVersionID ` set (DAG ?repo1) \<subseteq>
          insert ?vid (NodeVersionID ` set (DAG repo))"
        using versions_of_child_dag [of parent fresh "DAG repo" ?vid "[parent]" "[]" False]
        by simp
      ultimately have "v = ?vid \<or> v \<in> set (versions_in_use repos)"
        using versions_after_replace [OF in_repos, of ?repo1 ?vid v ?vid] by blast
      then have "v \<le> ?vid"
        using inv next_id_above [of "lastVersionID repos" v] by auto
      then show "v \<le> lastVersionID ?repos1" by simp
    qed
  qed
  have iff: "(\<exists>m. snd (fst (NewVersion fresh parent s b)) = Some (KindError LockViolation m)) =
      (\<not> Locked node)"
  proof (cases "Locked node")
    case True
    then show ?thesis using locked by (cases "next_write_fails b") simp_all
  next
    case False
    then show ?thesis using unlocked by simp
  qed
  from iff unlocked locked in_list vm ch unused
  show "((\<exists>m. snd (fst (NewVersion fresh parent s b)) = Some (KindError LockViolation m)) =
      (\<not> Locked node)) \<and>
   (\<not> Locked node \<longrightarrow>
      NewVersion fresh parent s b = (('''', Some (KindError LockViolation parent)), s, b)) \<and>
   (Locked node \<longrightarrow>
      (let vid = lastVersionID repos + 1;
           child = \<lparr>NodeUUID = fresh, NodeVersionID = vid, Parents = [parent],
                    Children = [], Locked = False\<rparr>;
           repo1 = repo\<lparr>VersionMap := AList.update fresh vid (VersionMap repo),
                         DAG := map (\<lambda>n. if NodeUUID n = parent
                                          then n\<lparr>Children := Children n @ [fresh]\<rparr> else n)
                                  (DAG repo) @ [child]\<rparr>;
           repos1 = repos\<lparr>list := map (\<lambda>r. if RepoID r = RepoID repo then repo1 else r)
                                       (list repos),
                           lastVersionID := vid\<rparr>
       in NewVersion fresh parent s b =
            ((fresh, map_option (KindError BackendError) (next_write_fails b)),
             s\<lparr>Repos := Some repos1\<rparr>,
             (case next_write_fails b of
                Some msg \<Rightarrow> b\<lparr>outcomes := tl (outcomes b)\<rparr>
              | None \<Rightarrow> b\<lparr>outcomes := tl (outcomes b),
                          descriptors := AList.update (RepoID repo) repo1 (descriptors b)\<rparr>)) \<and>
          map_of (VersionMap repo1) = (map_of (VersionMap repo))(fresh \<mapsto> vid) \<and>
          repo1 \<in> set (list repos1) \<and>
          find (\<lambda>n. NodeUUID n = parent) (DAG repo1) =
            Some (node\<lparr>Children := Children node @ [fresh]\<rparr>) \<and>
          ((\<forall>v \<in> set (versions_in_use repos). v \<le> lastVersionID repos) \<and>
           lastVersionID repos < MaxVersionID \<longrightarrow>
             vid \<notin> set (versions_in_use repos) \<and>
             (\<forall>v \<in> set (versions_in_use repos1). v \<le> lastVersionID repos1))))"
    unfolding Let_def by blast
qed

text \<open>
  On a repository with the single version ab12, number 1: a child of the unlocked root is
  refused; a child of the locked root is made, with the unused number 2, and the
  repository is stored.
\<close>

theorem NewVersion_lock_witness:
  "NewVersion ''cd34'' ''ab12'' service_open_root empty_backend =
     (('''', Some (KindError LockViolation ''ab12'')), service_open_root, empty_backend) \<and>
   NewVersion ''cd34'' ''ab12'' service_locked_root empty_backend =
     ((''cd34'', None),
      service_locked_root\<lparr>Repos :=
        Some \<lparr>list = [repo_two_versions], lastRepoID = 1, lastVersionID = 2\<rparr>\<rparr>,
      empty_backend\<lparr>descriptors := [(1, repo_two_versions)]\<rparr>) \<and>
   2 \<notin> set (versions_in_use \<lparr>list = [repo_locked_root], lastRepoID = 1, lastVersionID = 1\<rparr>)"
proof -
  let ?root = "\<lparr>NodeUUID = ''ab12'', NodeVersionID = 1, Parents = [], Children = [],
                Locked = False\<rparr>"
  let ?open = "repo_locked_root\<lparr>DAG := [?root]\<rparr>"
  let ?repos = "\<lparr>list = [?open], lastRepoID = 1, lastVersionID = 1\<rparr>"
  have "Repos service_open_root = Some ?repos \<and>
    RepoFromUUID ''ab12'' ?repos = Inr ?open \<and>
    find (\<lambda>n. NodeUUID n = ''ab12'') (DAG ?open) = Some ?root"
    by (simp add: service_open_root_def RepoFromUUID_def repo_locked_root_def)
  then have a: "NewVersion ''cd34'' ''ab12'' service_open_root empty_backend =
     (('''', Some (KindError LockViolation ''ab12'')), service_open_root, empty_backend)"
    using NewVersion_lock [of service_open_root ?repos "''ab12''" ?open ?root "''cd34''"
        empty_backend]
    by simp
  let ?locked = "?root\<lparr>Locked := True\<rparr>"
  let ?repos' = "\<lparr>list = [repo_locked_root], lastRepoID = 1, lastVersionID = 1\<rparr>"
  have h: "Repos service_locked_root = Some ?repos' \<and>
    RepoFromUUID ''ab12'' ?repos' = Inr repo_locked_root \<and>
    find (\<lambda>n. NodeUUID n = ''ab12'') (DAG repo_locked_root) = Some ?locked"
    by (simp add: service_locked_root_def RepoFromUUID_def repo_locked_root_def)
  have l: "Locked ?locked" by simp
  have inv: "(\<forall>v \<in> set (versions_in_use ?repos'). v \<le> lastVersionID ?repos') \<and>
      lastVersionID ?repos' < MaxVersionID"
    by (simp add: versions_in_use_def repo_locked_root_def MaxVersionID_def)
  have w: "next_write_fails empty_backend = None"
    by (simp add: next_write_fails_def empty_backend_def)
  note t = NewVersion_lock [of service_locked_root ?repos' "''ab12''" repo_locked_root
      ?locked "''cd34''" empty_backend, unfolded Let_def]
  from t h l have "NewVersion ''cd34'' ''ab12'' service_locked_root empty_backend =
      ((''cd34'', map_option (KindError BackendError) (next_write_fails empty_backend)),
       service_locked_root\<lparr>Repos := Some (?repos'\<lparr>list :=
         map (\<lambda>r. if RepoID r = RepoID repo_locked_root
           then repo_locked_root\<lparr>VersionMap :=
                  AList.update ''cd34'' (lastVersionID ?repos' + 1) (VersionMap repo_locked_root),
                DAG := map (\<lambda>n. if NodeUUID n = ''ab12''
                                 then n\<lparr>Children := Children n @ [''cd34'']\<rparr> else n)
                         (DAG repo_locked_root) @
                       [\<lparr>NodeUUID = ''cd34'', NodeVersionID = lastVersionID ?repos' + 1,
                         Parents = [''ab12''], Children = [], Locked = False\<rparr>]\<rparr>
           else r) (list ?repos'),
         lastVersionID := lastVersionID ?repos' + 1\<rparr>)\<rparr>,
       (case next_write_fails empty_backend of
          Some msg \<Rightarrow> empty_backend\<lparr>outcomes := tl (outcomes empty_backend)\<rparr>
        | None \<Rightarrow> empty_backend\<lparr>outcomes := tl (outcomes empty_backend),
            descriptors := AList.update (RepoID repo_locked_root)
              (repo_locked_root\<lparr>VersionMap :=
                  AList.update ''cd34'' (lastVersionID ?repos' + 1) (VersionMap repo_locked_root),
                DAG := map (\<lambda>n. if NodeUUID n = ''ab12''
                                 then n\<lparr>Children := Children n @ [''cd34'']\<rparr> else n)
                         (DAG repo_locked_root) @
                       [\<lparr>NodeUUID = ''cd34'', NodeVersionID = lastVersionID ?repos' + 1,
                         Parents = [''ab12''], Children = [], Locked = False\<rparr>]\<rparr>)
              (descriptors empty_backend)\<rparr>))"
    by blast
  then have b: "NewVersion ''cd34'' ''ab12'' service_locked_root empty_backend =
     ((''cd34'', None),
      service_locked_root\<lparr>Repos :=
        Some \<lparr>list = [repo_two_versions], lastRepoID = 1, lastVersionID = 2\<rparr>\<rparr>,
      empty_backend\<lparr>descriptors := [(1, repo_two_versions)]\<rparr>)"
    unfolding w by (simp add: repo_locked_root_def repo_two_versions_def empty_backend_def)
  from t h l inv have "lastVersionID ?repos' + 1 \<notin> set (versions_in_use ?repos')"
    by blast
  then have c: "2 \<notin> set (versions_in_use ?repos')" by simp
  from a b c show ?thesis by simp
qed

text \<open>
  The root ab12 is locked and the write of the repository fails: \<^verbatim>\<open>NewVersion\<close> does
  not succeed, it returns the error of the write.
\<close>

theorem NewVersion_locked_parent_put_fails:
  "map Locked (DAG repo_locked_root) = [True] \<and>
   fst (NewVersion ''cd34'' ''ab12'' service_locked_root backend_first_fails) =
     (''cd34'', Some (KindError BackendError ''disk full''))"
  by (simp add: NewVersion_def newChild_def RepoFromUUID_def Repo_Put_def write_backend_def
      service_locked_root_def service_ok_def repo_locked_root_def backend_first_fails_def
      empty_backend_def replace_repo_def Let_def)

section \<open>Reading a key at a version\<close>

lemma be32_inj: "be32 v = be32 w \<longleftrightarrow> v = w"
proof
  assume "be32 v = be32 w"
  then have "Uint32 (be32 v) = Uint32 (be32 w)" by simp
  then show "v = w" by (simp add: be32_def Uint32_of_bytes)
qed simp

lemma length_be32: "length (be32 v) = 4"
  by (simp add: be32_def)

lemma data_key_eq:
  "constructDataKey i v c tk = constructDataKey i' v' c' tk' \<longleftrightarrow> i = i' \<and> v = v' \<and> c = c' \<and> tk = tk'"
  by (auto simp add: constructDataKey_def length_be32 be32_inj)

lemma tombstone_key_eq:
  "constructTombstoneKey i v c tk = constructTombstoneKey i' v' c' tk' \<longleftrightarrow> i = i' \<and> v = v' \<and> c = c' \<and> tk = tk'"
  by (auto simp add: constructTombstoneKey_def length_be32 be32_inj)

lemma data_tombstone_neq:
  "constructDataKey i v c tk \<noteq> constructTombstoneKey i' v' c' tk'"
  "constructTombstoneKey i' v' c' tk' \<noteq> constructDataKey i v c tk"
  by (simp_all add: constructDataKey_def constructTombstoneKey_def dataKeyPrefix_def tombstoneKeyPrefix_def)

lemma Put_lookup:
  "Put \<lparr>ContextInstanceID = i, ContextVersionID = v\<rparr> tk x kv (constructDataKey i' v' 0 tk') =
     (if i' = i \<and> tk' = tk \<and> v' = v then Some x else kv (constructDataKey i' v' 0 tk'))"
  "Put \<lparr>ContextInstanceID = i, ContextVersionID = v\<rparr> tk x kv (constructTombstoneKey i' v' 0 tk') =
     (if i' = i \<and> tk' = tk \<and> v' = v then None else kv (constructTombstoneKey i' v' 0 tk'))"
  by (auto simp add: Put_def data_key_eq tombstone_key_eq data_tombstone_neq)

lemma Delete_lookup:
  "Delete \<lparr>ContextInstanceID = i, ContextVersionID = v\<rparr> tk kv (constructDataKey i' v' 0 tk') =
     (if i' = i \<and> tk' = tk \<and> v' = v then None else kv (constructDataKey i' v' 0 tk'))"
  "Delete \<lparr>ContextInstanceID = i, ContextVersionID = v\<rparr> tk kv (constructTombstoneKey i' v' 0 tk') =
     (if i' = i \<and> tk' = tk \<and> v' = v then Some [] else kv (constructTombstoneKey i' v' 0 tk'))"
  by (auto simp add: Delete_def data_key_eq tombstone_key_eq data_tombstone_neq)

lemma stored_at_Put:
  "stored_at (Put \<lparr>ContextInstanceID = i, ContextVersionID = v\<rparr> tk x kv) i' tk' v' =
     (if i' = i \<and> tk' = tk \<and> v' = v then Some (Written x) else stored_at kv i' tk' v')"
  by (simp add: stored_at_def Put_lookup cong: option.case_cong)

lemma stored_at_Delete:
  "stored_at (Delete \<lparr>ContextInstanceID = i, ContextVersionID = v\<rparr> tk kv) i' tk' v' =
     (if i' = i \<and> tk' = tk \<and> v' = v then Some Tombstone else stored_at kv i' tk' v')"
  by (simp add: stored_at_def Delete_lookup cong: option.case_cong)

lemma closest_here:
  "held v = Some r \<Longrightarrow> closest (Suc fuel) parents held [v] =
     (case r of Written x \<Rightarrow> Inr x | Tombstone \<Rightarrow> Inl (KindError NotFound ''key not found''))"
  by (simp split: Stored.splits)

lemma closest_parent:
  "held v = None \<Longrightarrow> parents v = [p] \<Longrightarrow>
   closest (Suc fuel) parents held [v] = closest fuel parents held [p]"
  by simp

lemma parent_versions_DAG: "parent_versions repo v \<noteq> [] \<Longrightarrow> DAG repo \<noteq> []"
  by (auto simp add: parent_versions_def)

lemma closest_skip:
  "(\<And>n. n < m \<Longrightarrow> filter (\<lambda>v. H v \<noteq> None) (frontier_after n P F) = []) \<Longrightarrow> m < fuel \<Longrightarrow>
   closest fuel P H F = closest (fuel - m) P H (frontier_after m P F)"
proof (induction m arbitrary: fuel F)
  case 0
  then show ?case by simp
next
  case (Suc m)
  then obtain f where f: "fuel = Suc f" by (cases fuel) auto
  have "filter (\<lambda>v. H v \<noteq> None) (frontier_after 0 P F) = []"
    using Suc.prems(1) [of 0] by simp
  then have here: "filter (\<lambda>v. H v \<noteq> None) F = []" by simp
  have "closest f P H (remdups (concat (map P F))) =
        closest (f - m) P H (frontier_after m P (remdups (concat (map P F))))"
  proof (rule Suc.IH)
    show "filter (\<lambda>v. H v \<noteq> None) (frontier_after n P (remdups (concat (map P F)))) = []"
      if "n < m" for n
      using Suc.prems(1) [of "Suc n"] that by simp
    show "m < f" using Suc.prems(2) f by simp
  qed
  with here f show ?case by simp
qed

lemma closest_nobody:
  "(\<And>n. filter (\<lambda>v. H v \<noteq> None) (frontier_after n P F) = []) \<Longrightarrow>
   closest fuel P H F = Inl (KindError NotFound ''key not found'')"
proof (induction fuel arbitrary: F)
  case 0
  then show ?case by simp
next
  case (Suc fuel)
  have "filter (\<lambda>v. H v \<noteq> None) (frontier_after 0 P F) = []"
    by (rule Suc.prems)
  then have here: "filter (\<lambda>v. H v \<noteq> None) F = []" by simp
  have "closest fuel P H (remdups (concat (map P F))) = Inl (KindError NotFound ''key not found'')"
  proof (rule Suc.IH)
    show "filter (\<lambda>v. H v \<noteq> None) (frontier_after n P (remdups (concat (map P F)))) = []" for n
      using Suc.prems [of "Suc n"] by simp
  qed
  with here show ?case by simp
qed

lemma frontier_path:
  "w \<in> set (frontier_after n P F) \<longleftrightarrow>
   (\<exists>p. p 0 \<in> set F \<and> p n = w \<and> (\<forall>j<n. p (Suc j) \<in> set (P (p j))))"
proof (induction n arbitrary: F)
  case 0
  then show ?case by auto
next
  case (Suc n)
  let ?F' = "remdups (concat (map P F))"
  show ?case
  proof
    assume "w \<in> set (frontier_after (Suc n) P F)"
    then have "w \<in> set (frontier_after n P ?F')" by simp
    then obtain q where q: "q 0 \<in> set ?F'" "q n = w" "\<forall>j<n. q (Suc j) \<in> set (P (q j))"
      using Suc.IH [of ?F'] by blast
    from q(1) obtain u where u: "u \<in> set F" "q 0 \<in> set (P u)" by auto
    let ?p = "\<lambda>j. case j of 0 \<Rightarrow> u | Suc k \<Rightarrow> q k"
    have "?p 0 \<in> set F" using u by simp
    moreover have "?p (Suc n) = w" using q(2) by simp
    moreover have "\<forall>j<Suc n. ?p (Suc j) \<in> set (P (?p j))"
      using u(2) q(3) by (auto split: nat.splits)
    ultimately show "\<exists>p. p 0 \<in> set F \<and> p (Suc n) = w \<and> (\<forall>j<Suc n. p (Suc j) \<in> set (P (p j)))"
      by (intro exI [of _ ?p]) simp
  next
    assume "\<exists>p. p 0 \<in> set F \<and> p (Suc n) = w \<and> (\<forall>j<Suc n. p (Suc j) \<in> set (P (p j)))"
    then obtain p where p: "p 0 \<in> set F" "p (Suc n) = w" "\<forall>j<Suc n. p (Suc j) \<in> set (P (p j))"
      by blast
    let ?q = "\<lambda>j. p (Suc j)"
    have "p (Suc 0) \<in> set (P (p 0))" using p(3) by simp
    with p(1) have "?q 0 \<in> set ?F'" by auto
    moreover have "?q n = w" using p(2) by simp
    moreover have "\<forall>j<n. ?q (Suc j) \<in> set (P (?q j))" using p(3) by simp
    ultimately have "\<exists>q. q 0 \<in> set ?F' \<and> q n = w \<and> (\<forall>j<n. q (Suc j) \<in> set (P (q j)))"
      by (intro exI [of _ ?q]) simp
    then have "w \<in> set (frontier_after n P ?F')"
      using Suc.IH [of ?F'] by simp
    then show "w \<in> set (frontier_after (Suc n) P F)" by simp
  qed
qed

lemma path_shortcut:
  assumes p: "p 0 \<in> set F" "p m = w" "\<forall>j<m. p (Suc j) \<in> set (P (p j))"
    and ab: "a < b" "b \<le> m" "p a = p b"
  shows "w \<in> set (frontier_after (m - (b - a)) P F)"
proof -
  let ?q = "\<lambda>j. if j \<le> a then p j else p (j + (b - a))"
  have "?q 0 \<in> set F" using p(1) by simp
  moreover have "?q (m - (b - a)) = w"
  proof (cases "m - (b - a) \<le> a")
    case True
    with ab have "m = b" by simp
    with ab True have "m - (b - a) = a" by simp
    with ab p(2) \<open>m = b\<close> show ?thesis by simp
  next
    case False
    with ab p(2) show ?thesis by simp
  qed
  moreover have "\<forall>j<m - (b - a). ?q (Suc j) \<in> set (P (?q j))"
  proof (intro allI impI)
    fix j
    assume j: "j < m - (b - a)"
    consider "Suc j \<le> a" | "j = a" | "a < j" by linarith
    then show "?q (Suc j) \<in> set (P (?q j))"
    proof cases
      case 1
      with ab j have "j < m" by simp
      with p(3) 1 show ?thesis by simp
    next
      case 2
      with ab j have "b < m" by simp
      with p(3) have "p (Suc b) \<in> set (P (p b))" by simp
      with 2 ab show ?thesis by simp
    next
      case 3
      with ab j have "j + (b - a) < m" by simp
      with p(3) have "p (Suc (j + (b - a))) \<in> set (P (p (j + (b - a))))" by simp
      with 3 show ?thesis by simp
    qed
  qed
  ultimately have "\<exists>q. q 0 \<in> set F \<and> q (m - (b - a)) = w \<and>
      (\<forall>j<m - (b - a). q (Suc j) \<in> set (P (q j)))"
    by (intro exI [of _ ?q]) simp
  then show ?thesis using frontier_path [of w "m - (b - a)" P F] by simp
qed

lemma closest_holder_simple_path:
  assumes w: "w \<in> set (frontier_after m P F)" "H w \<noteq> None"
    and none: "\<And>n u. n < m \<Longrightarrow> u \<in> set (frontier_after n P F) \<Longrightarrow> H u = None"
  shows "\<exists>p. p 0 \<in> set F \<and> p m = w \<and> (\<forall>j<m. p (Suc j) \<in> set (P (p j))) \<and> inj_on p {0..m}"
proof -
  from w(1) obtain p where p: "p 0 \<in> set F" "p m = w" "\<forall>j<m. p (Suc j) \<in> set (P (p j))"
    using frontier_path [of w m P F] by blast
  have "inj_on p {0..m}"
  proof (rule ccontr)
    assume "\<not> inj_on p {0..m}"
    then obtain a b where "a \<le> m" "b \<le> m" "a \<noteq> b" "p a = p b"
      by (auto simp add: inj_on_def)
    then obtain a' b' where ab: "a' < b'" "b' \<le> m" "p a' = p b'"
      by (cases "a < b") (auto simp add: not_less le_less)
    then have "w \<in> set (frontier_after (m - (b' - a')) P F)"
      using path_shortcut [OF p ab] by simp
    moreover have "m - (b' - a') < m" using ab by simp
    ultimately have "H w = None" using none by blast
    with w(2) show False by simp
  qed
  with p show ?thesis by blast
qed

lemma parent_versions_node:
  "parent_versions repo v \<noteq> [] \<Longrightarrow> v \<in> NodeVersionID ` set (DAG repo)"
  by (auto simp add: parent_versions_def find_Some_iff split: option.splits)

lemma closest_holder_distance:
  assumes w: "w \<in> set (ancestors_at repo v m)" "H w \<noteq> None"
    and none: "\<And>n u. n < m \<Longrightarrow> u \<in> set (ancestors_at repo v n) \<Longrightarrow> H u = None"
  shows "m \<le> length (DAG repo)"
proof -
  obtain p where p: "\<forall>j<m. p (Suc j) \<in> set (parent_versions repo (p j))" "inj_on p {0..m}"
    using closest_holder_simple_path [of w m "parent_versions repo" "[v]" H] w none
    unfolding ancestors_at_def by blast
  have "p ` {0..<m} \<subseteq> NodeVersionID ` set (DAG repo)"
  proof
    fix x
    assume "x \<in> p ` {0..<m}"
    then obtain j where j: "j < m" "x = p j" by auto
    with p(1) have "parent_versions repo (p j) \<noteq> []" by auto
    with j show "x \<in> NodeVersionID ` set (DAG repo)"
      using parent_versions_node [of repo "p j"] by simp
  qed
  then have "card (p ` {0..<m}) \<le> card (NodeVersionID ` set (DAG repo))"
    by (simp add: card_mono)
  moreover have "inj_on p {0..<m}"
    using p(2) by (rule inj_on_subset) auto
  then have "card (p ` {0..<m}) = m"
    by (simp add: card_image)
  moreover have "card (NodeVersionID ` set (DAG repo)) \<le> length (DAG repo)"
    using card_image_le [of "set (DAG repo)" NodeVersionID] card_length [of "DAG repo"]
    by simp
  ultimately show ?thesis by simp
qed

lemma Get_closest_level:
  assumes none: "\<forall>n<m. \<forall>u \<in> set (ancestors_at repo v n). stored_at kv i k u = None"
    and w: "w \<in> set (ancestors_at repo v m)" "stored_at kv i k w \<noteq> None"
  shows "Get repo \<lparr>ContextInstanceID = i, ContextVersionID = v\<rparr> k kv =
     closest (Suc (length (DAG repo) - m)) (parent_versions repo) (stored_at kv i k)
       (ancestors_at repo v m)"
proof -
  have "m \<le> length (DAG repo)"
    using closest_holder_distance [of w repo v m "stored_at kv i k"] w none by blast
  moreover have "filter (\<lambda>u. stored_at kv i k u \<noteq> None)
      (frontier_after n (parent_versions repo) [v]) = []" if "n < m" for n
    using none that by (auto simp add: filter_empty_conv ancestors_at_def)
  ultimately show ?thesis
    using closest_skip [of m "stored_at kv i k" "parent_versions repo" "[v]"
        "Suc (length (DAG repo))"]
    by (simp add: Get_def ancestors_at_def Suc_diff_le)
qed

lemma Get_unique_holder:
  assumes "\<forall>n<m. \<forall>u \<in> set (ancestors_at repo v n). stored_at kv i k u = None"
    and "filter (\<lambda>u. stored_at kv i k u \<noteq> None) (ancestors_at repo v m) = [w]"
    and "stored_at kv i k w = Some r"
  shows "Get repo \<lparr>ContextInstanceID = i, ContextVersionID = v\<rparr> k kv =
     (case r of Written x \<Rightarrow> Inr x | Tombstone \<Rightarrow> Inl (KindError NotFound ''key not found''))"
proof -
  have "w \<in> set (filter (\<lambda>u. stored_at kv i k u \<noteq> None) (ancestors_at repo v m))"
    using assms(2) by simp
  then have "w \<in> set (ancestors_at repo v m)" by simp
  then have "Get repo \<lparr>ContextInstanceID = i, ContextVersionID = v\<rparr> k kv =
     closest (Suc (length (DAG repo) - m)) (parent_versions repo) (stored_at kv i k)
       (ancestors_at repo v m)"
    using Get_closest_level [of m repo v kv i k w] assms(1,3) by simp
  with assms(2,3) show ?thesis by (simp split: Stored.splits)
qed

lemma Get_several_holders:
  assumes "\<forall>n<m. \<forall>u \<in> set (ancestors_at repo v n). stored_at kv i k u = None"
    and "filter (\<lambda>u. stored_at kv i k u \<noteq> None) (ancestors_at repo v m) = w # w' # ws"
  shows "Get repo \<lparr>ContextInstanceID = i, ContextVersionID = v\<rparr> k kv =
     Inl (KindError Conflict ''key held by several ancestors'')"
proof -
  have "w \<in> set (filter (\<lambda>u. stored_at kv i k u \<noteq> None) (ancestors_at repo v m))"
    using assms(2) by simp
  then have "w \<in> set (ancestors_at repo v m)" "stored_at kv i k w \<noteq> None" by simp_all
  then have "Get repo \<lparr>ContextInstanceID = i, ContextVersionID = v\<rparr> k kv =
     closest (Suc (length (DAG repo) - m)) (parent_versions repo) (stored_at kv i k)
       (ancestors_at repo v m)"
    using Get_closest_level [of m repo v kv i k w] assms(1) by simp
  with assms(2) show ?thesis by simp
qed

lemma Get_no_holder:
  assumes "\<forall>n. \<forall>u \<in> set (ancestors_at repo v n). stored_at kv i k u = None"
  shows "Get repo \<lparr>ContextInstanceID = i, ContextVersionID = v\<rparr> k kv =
     Inl (KindError NotFound ''key not found'')"
proof -
  have "filter (\<lambda>u. stored_at kv i k u \<noteq> None)
      (frontier_after n (parent_versions repo) [v]) = []" for n
    using assms by (auto simp add: filter_empty_conv ancestors_at_def)
  then show ?thesis
    using closest_nobody [of "stored_at kv i k" "parent_versions repo" "[v]"]
    by (simp add: Get_def)
qed

lemma frontier_along_chain:
  "(\<And>j. j < m \<Longrightarrow> P (c j) = [c (Suc j)]) \<Longrightarrow> a + n \<le> m \<Longrightarrow>
   frontier_after n P [c a] = [c (a + n)]"
proof (induction n arbitrary: a)
  case 0
  then show ?case by simp
next
  case (Suc n)
  have "P (c a) = [c (Suc a)]" using Suc.prems by simp
  moreover have "frontier_after n P [c (Suc a)] = [c (Suc a + n)]"
    using Suc.IH [of "Suc a"] Suc.prems by simp
  ultimately show ?case by simp
qed

lemma Get_along_chain:
  assumes chain: "\<forall>j<m. stored_at kv i k (c j) = None \<and>
      parent_versions repo (c j) = [c (Suc j)]"
    and r: "stored_at kv i k (c m) = Some r"
  shows "Get repo \<lparr>ContextInstanceID = i, ContextVersionID = c 0\<rparr> k kv =
     (case r of Written x \<Rightarrow> Inr x | Tombstone \<Rightarrow> Inl (KindError NotFound ''key not found''))"
proof -
  have level: "ancestors_at repo (c 0) n = [c n]" if "n \<le> m" for n
    using frontier_along_chain [of m "parent_versions repo" c 0 n] chain that
    by (simp add: ancestors_at_def)
  have "\<forall>n<m. \<forall>u \<in> set (ancestors_at repo (c 0) n). stored_at kv i k u = None"
    using chain level by simp
  moreover have "filter (\<lambda>u. stored_at kv i k u \<noteq> None) (ancestors_at repo (c 0) m) = [c m]"
    using r level [of m] by simp
  ultimately show ?thesis
    using Get_unique_holder [of m repo "c 0" kv i k "c m" r] r by simp
qed

lemma Get_after_branch:
  "v1 \<noteq> v2 \<and> parent_versions repo v2 = [v1] \<and> stored_at kv i k v2 = None \<longrightarrow>
   Get repo \<lparr>ContextInstanceID = i, ContextVersionID = v2\<rparr> k
     (Put \<lparr>ContextInstanceID = i, ContextVersionID = v1\<rparr> k x kv) = Inr x \<and>
   Get repo \<lparr>ContextInstanceID = i, ContextVersionID = v2\<rparr> k
     (Put \<lparr>ContextInstanceID = i, ContextVersionID = v2\<rparr> k y
       (Put \<lparr>ContextInstanceID = i, ContextVersionID = v1\<rparr> k x kv)) = Inr y \<and>
   Get repo \<lparr>ContextInstanceID = i, ContextVersionID = v1\<rparr> k
     (Put \<lparr>ContextInstanceID = i, ContextVersionID = v2\<rparr> k y
       (Put \<lparr>ContextInstanceID = i, ContextVersionID = v1\<rparr> k x kv)) = Inr x \<and>
   Get repo \<lparr>ContextInstanceID = i, ContextVersionID = v2\<rparr> k
     (Delete \<lparr>ContextInstanceID = i, ContextVersionID = v2\<rparr> k
       (Put \<lparr>ContextInstanceID = i, ContextVersionID = v2\<rparr> k y
         (Put \<lparr>ContextInstanceID = i, ContextVersionID = v1\<rparr> k x kv))) =
     Inl (KindError NotFound ''key not found'') \<and>
   Get repo \<lparr>ContextInstanceID = i, ContextVersionID = v1\<rparr> k
     (Delete \<lparr>ContextInstanceID = i, ContextVersionID = v2\<rparr> k
       (Put \<lparr>ContextInstanceID = i, ContextVersionID = v2\<rparr> k y
         (Put \<lparr>ContextInstanceID = i, ContextVersionID = v1\<rparr> k x kv))) = Inr x"
proof (intro impI)
  assume a: "v1 \<noteq> v2 \<and> parent_versions repo v2 = [v1] \<and> stored_at kv i k v2 = None"
  then have "DAG repo \<noteq> []" using parent_versions_DAG [of repo v2] by simp
  then obtain n where n: "length (DAG repo) = Suc n" by (cases "DAG repo") auto
  let ?c1 = "\<lparr>ContextInstanceID = i, ContextVersionID = v1\<rparr>"
  let ?c2 = "\<lparr>ContextInstanceID = i, ContextVersionID = v2\<rparr>"
  have g1: "Get repo ?c2 k (Put ?c1 k x kv) = Inr x"
    using a by (simp add: Get_def n stored_at_Put)
  have g2: "Get repo ?c2 k (Put ?c2 k y (Put ?c1 k x kv)) = Inr y"
    by (simp add: Get_def stored_at_Put)
  have g3: "Get repo ?c1 k (Put ?c2 k y (Put ?c1 k x kv)) = Inr x"
    using a by (simp add: Get_def stored_at_Put)
  have g4: "Get repo ?c2 k (Delete ?c2 k (Put ?c2 k y (Put ?c1 k x kv))) =
      Inl (KindError NotFound ''key not found'')"
    by (simp add: Get_def stored_at_Put stored_at_Delete)
  have g5: "Get repo ?c1 k (Delete ?c2 k (Put ?c2 k y (Put ?c1 k x kv))) = Inr x"
    using a by (simp add: Get_def stored_at_Put stored_at_Delete)
  from g1 g2 g3 g4 g5 show "Get repo ?c2 k (Put ?c1 k x kv) = Inr x \<and>
    Get repo ?c2 k (Put ?c2 k y (Put ?c1 k x kv)) = Inr y \<and>
    Get repo ?c1 k (Put ?c2 k y (Put ?c1 k x kv)) = Inr x \<and>
    Get repo ?c2 k (Delete ?c2 k (Put ?c2 k y (Put ?c1 k x kv))) =
      Inl (KindError NotFound ''key not found'') \<and>
    Get repo ?c1 k (Delete ?c2 k (Put ?c2 k y (Put ?c1 k x kv))) = Inr x"
    by simp
qed

text \<open>
  C1. A get at a version gives what the closest ancestor holds for the key, the version
  itself first: when no ancestor at a distance below \<open>m\<close> holds the key and exactly one at
  distance \<open>m\<close> does, the result is the value written there, or NotFound when it is a
  tombstone (when several at that distance hold it the result is Conflict, and when no
  ancestor holds it NotFound). So along a chain of single parents of any length the
  first version that holds the key decides. A put leaves the value, and a delete a
  tombstone, for that instance, key and version, and what the other versions hold is
  unchanged. Concretely, let \<open>v2\<close> be branched from \<open>v1\<close>, its only parent, and hold
  nothing for \<open>k\<close>: after \<open>k = x\<close> was put at \<open>v1\<close>, a get at \<open>v2\<close> gives \<open>x\<close>; after \<open>k = y\<close>
  was put at \<open>v2\<close>, a get at \<open>v2\<close> gives \<open>y\<close> and a get at \<open>v1\<close> gives \<open>x\<close>; after \<open>k\<close> was
  deleted at \<open>v2\<close>, a get at \<open>v2\<close> gives NotFound and a get at \<open>v1\<close> still gives \<open>x\<close>.
\<close>

theorem versioned_get:
  "((\<forall>n<m. \<forall>u \<in> set (ancestors_at repo v n). stored_at kv i k u = None) \<and>
    filter (\<lambda>u. stored_at kv i k u \<noteq> None) (ancestors_at repo v m) = [w] \<and>
    stored_at kv i k w = Some r \<longrightarrow>
      Get repo \<lparr>ContextInstanceID = i, ContextVersionID = v\<rparr> k kv =
        (case r of Written x \<Rightarrow> Inr x
         | Tombstone \<Rightarrow> Inl (KindError NotFound ''key not found''))) \<and>
   ((\<forall>n<m. \<forall>u \<in> set (ancestors_at repo v n). stored_at kv i k u = None) \<and>
    filter (\<lambda>u. stored_at kv i k u \<noteq> None) (ancestors_at repo v m) = w # w' # ws \<longrightarrow>
      Get repo \<lparr>ContextInstanceID = i, ContextVersionID = v\<rparr> k kv =
        Inl (KindError Conflict ''key held by several ancestors'')) \<and>
   ((\<forall>n. \<forall>u \<in> set (ancestors_at repo v n). stored_at kv i k u = None) \<longrightarrow>
      Get repo \<lparr>ContextInstanceID = i, ContextVersionID = v\<rparr> k kv =
        Inl (KindError NotFound ''key not found'')) \<and>
   ((\<forall>j<m. stored_at kv i k (c j) = None \<and> parent_versions repo (c j) = [c (Suc j)]) \<and>
    stored_at kv i k (c m) = Some r \<longrightarrow>
      Get repo \<lparr>ContextInstanceID = i, ContextVersionID = c 0\<rparr> k kv =
        (case r of Written x \<Rightarrow> Inr x
         | Tombstone \<Rightarrow> Inl (KindError NotFound ''key not found''))) \<and>
   stored_at (Put \<lparr>ContextInstanceID = i, ContextVersionID = v\<rparr> k x kv) i' k' v' =
     (if i' = i \<and> k' = k \<and> v' = v then Some (Written x) else stored_at kv i' k' v') \<and>
   stored_at (Delete \<lparr>ContextInstanceID = i, ContextVersionID = v\<rparr> k kv) i' k' v' =
     (if i' = i \<and> k' = k \<and> v' = v then Some Tombstone else stored_at kv i' k' v') \<and>
   (v1 \<noteq> v2 \<and> parent_versions repo v2 = [v1] \<and> stored_at kv i k v2 = None \<longrightarrow>
      Get repo \<lparr>ContextInstanceID = i, ContextVersionID = v2\<rparr> k
        (Put \<lparr>ContextInstanceID = i, ContextVersionID = v1\<rparr> k x kv) = Inr x \<and>
      Get repo \<lparr>ContextInstanceID = i, ContextVersionID = v2\<rparr> k
        (Put \<lparr>ContextInstanceID = i, ContextVersionID = v2\<rparr> k y
          (Put \<lparr>ContextInstanceID = i, ContextVersionID = v1\<rparr> k x kv)) = Inr y \<and>
      Get repo \<lparr>ContextInstanceID = i, ContextVersionID = v1\<rparr> k
        (Put \<lparr>ContextInstanceID = i, ContextVersionID = v2\<rparr> k y
          (Put \<lparr>ContextInstanceID = i, ContextVersionID = v1\<rparr> k x kv)) = Inr x \<and>
      Get repo \<lparr>ContextInstanceID = i, ContextVersionID = v2\<rparr> k
        (Delete \<lparr>ContextInstanceID = i, ContextVersionID = v2\<rparr> k
          (Put \<lparr>ContextInstanceID = i, ContextVersionID = v2\<rparr> k y
            (Put \<lparr>ContextInstanceID = i, ContextVersionID = v1\<rparr> k x kv))) =
        Inl (KindError NotFound ''key not found'') \<and>
      Get repo \<lparr>ContextInstanceID = i, ContextVersionID = v1\<rparr> k
        (Delete \<lparr>ContextInstanceID = i, ContextVersionID = v2\<rparr> k
          (Put \<lparr>ContextInstanceID = i, ContextVersionID = v2\<rparr> k y
            (Put \<lparr>ContextInstanceID = i, ContextVersionID = v1\<rparr> k x kv))) = Inr x)"
proof (intro conjI)
  show "(\<forall>n<m. \<forall>u \<in> set (ancestors_at repo v n). stored_at kv i k u = None) \<and>
    filter (\<lambda>u. stored_at kv i k u \<noteq> None) (ancestors_at repo v m) = [w] \<and>
    stored_at kv i k w = Some r \<longrightarrow>
      Get repo \<lparr>ContextInstanceID = i, ContextVersionID = v\<rparr> k kv =
        (case r of Written x \<Rightarrow> Inr x
         | Tombstone \<Rightarrow> Inl (KindError NotFound ''key not found''))"
    using Get_unique_holder [of m repo v kv i k w r] by blast
  show "(\<forall>n<m. \<forall>u \<in> set (ancestors_at repo v n). stored_at kv i k u = None) \<and>
    filter (\<lambda>u. stored_at kv i k u \<noteq> None) (ancestors_at repo v m) = w # w' # ws \<longrightarrow>
      Get repo \<lparr>ContextInstanceID = i, ContextVersionID = v\<rparr> k kv =
        Inl (KindError Conflict ''key held by several ancestors'')"
    using Get_several_holders [of m repo v kv i k w w' ws] by blast
  show "(\<forall>n. \<forall>u \<in> set (ancestors_at repo v n). stored_at kv i k u = None) \<longrightarrow>
      Get repo \<lparr>ContextInstanceID = i, ContextVersionID = v\<rparr> k kv =
        Inl (KindError NotFound ''key not found'')"
    using Get_no_holder [of repo v kv i k] by blast
  show "(\<forall>j<m. stored_at kv i k (c j) = None \<and> parent_versions repo (c j) = [c (Suc j)]) \<and>
    stored_at kv i k (c m) = Some r \<longrightarrow>
      Get repo \<lparr>ContextInstanceID = i, ContextVersionID = c 0\<rparr> k kv =
        (case r of Written x \<Rightarrow> Inr x
         | Tombstone \<Rightarrow> Inl (KindError NotFound ''key not found''))"
    using Get_along_chain [of m kv i k c repo r] by blast
  show "stored_at (Put \<lparr>ContextInstanceID = i, ContextVersionID = v\<rparr> k x kv) i' k' v' =
     (if i' = i \<and> k' = k \<and> v' = v then Some (Written x) else stored_at kv i' k' v')"
    by (rule stored_at_Put)
  show "stored_at (Delete \<lparr>ContextInstanceID = i, ContextVersionID = v\<rparr> k kv) i' k' v' =
     (if i' = i \<and> k' = k \<and> v' = v then Some Tombstone else stored_at kv i' k' v')"
    by (rule stored_at_Delete)
  show "v1 \<noteq> v2 \<and> parent_versions repo v2 = [v1] \<and> stored_at kv i k v2 = None \<longrightarrow>
      Get repo \<lparr>ContextInstanceID = i, ContextVersionID = v2\<rparr> k
        (Put \<lparr>ContextInstanceID = i, ContextVersionID = v1\<rparr> k x kv) = Inr x \<and>
      Get repo \<lparr>ContextInstanceID = i, ContextVersionID = v2\<rparr> k
        (Put \<lparr>ContextInstanceID = i, ContextVersionID = v2\<rparr> k y
          (Put \<lparr>ContextInstanceID = i, ContextVersionID = v1\<rparr> k x kv)) = Inr y \<and>
      Get repo \<lparr>ContextInstanceID = i, ContextVersionID = v1\<rparr> k
        (Put \<lparr>ContextInstanceID = i, ContextVersionID = v2\<rparr> k y
          (Put \<lparr>ContextInstanceID = i, ContextVersionID = v1\<rparr> k x kv)) = Inr x \<and>
      Get repo \<lparr>ContextInstanceID = i, ContextVersionID = v2\<rparr> k
        (Delete \<lparr>ContextInstanceID = i, ContextVersionID = v2\<rparr> k
          (Put \<lparr>ContextInstanceID = i, ContextVersionID = v2\<rparr> k y
            (Put \<lparr>ContextInstanceID = i, ContextVersionID = v1\<rparr> k x kv))) =
        Inl (KindError NotFound ''key not found'') \<and>
      Get repo \<lparr>ContextInstanceID = i, ContextVersionID = v1\<rparr> k
        (Delete \<lparr>ContextInstanceID = i, ContextVersionID = v2\<rparr> k
          (Put \<lparr>ContextInstanceID = i, ContextVersionID = v2\<rparr> k y
            (Put \<lparr>ContextInstanceID = i, ContextVersionID = v1\<rparr> k x kv))) = Inr x"
    by (rule Get_after_branch)
qed

lemma scenario_builds_repo:
  "Repos (fst (snd (NewVersion ''cd34'' ''ab12''
      (fst (snd (Lock ''ab12'' (fst (snd (NewRepo ''ab12'' service_empty empty_backend))) empty_backend)))
       empty_backend))) = Some \<lparr>list = [repo_two_versions], lastRepoID = 1, lastVersionID = 2\<rparr>"
  by (simp add: NewVersion_def Lock_def NewRepo_def newRepo_def newChild_def Repo_Lock_def RepoFromUUID_def
     Repos_Put_def Repo_Put_def write_backend_def service_empty_def service_ok_def empty_backend_def new_Repos_def
     replace_repo_def add_child_def lock_node_def repo_two_versions_def Let_def)


text \<open>
  On concrete repositories, for instance 1 and the key foo. In the chain 1, 2, 3: the
  value put at version 1 is read at version 3, and with a tombstone at version 2 between
  them the read at version 3 is NotFound. In the merge of 2 and 3 into 4, with a value at
  each of 2 and 3, the read at 4 is a Conflict. On an empty store the read is NotFound.
  In the repository with the locked root, version 1, and its child, version 2: the
  values 0x01 and 0x02 put at 1 and at 2, then the key deleted at 2.
\<close>

theorem versioned_get_witness:
  "Get repo_three_versions \<lparr>ContextInstanceID = 1, ContextVersionID = 3\<rparr> [0x66, 0x6F, 0x6F]
     (Put \<lparr>ContextInstanceID = 1, ContextVersionID = 1\<rparr> [0x66, 0x6F, 0x6F] [0x01] Map.empty) =
     Inr [0x01] \<and>
   Get repo_three_versions \<lparr>ContextInstanceID = 1, ContextVersionID = 3\<rparr> [0x66, 0x6F, 0x6F]
     (Delete \<lparr>ContextInstanceID = 1, ContextVersionID = 2\<rparr> [0x66, 0x6F, 0x6F]
       (Put \<lparr>ContextInstanceID = 1, ContextVersionID = 1\<rparr> [0x66, 0x6F, 0x6F] [0x01]
          Map.empty)) = Inl (KindError NotFound ''key not found'') \<and>
   Get repo_merge \<lparr>ContextInstanceID = 1, ContextVersionID = 4\<rparr> [0x66, 0x6F, 0x6F]
     (Put \<lparr>ContextInstanceID = 1, ContextVersionID = 3\<rparr> [0x66, 0x6F, 0x6F] [0x02]
       (Put \<lparr>ContextInstanceID = 1, ContextVersionID = 2\<rparr> [0x66, 0x6F, 0x6F] [0x01]
          Map.empty)) = Inl (KindError Conflict ''key held by several ancestors'') \<and>
   Get repo_two_versions \<lparr>ContextInstanceID = 1, ContextVersionID = 2\<rparr> [0x66, 0x6F, 0x6F]
     Map.empty = Inl (KindError NotFound ''key not found'') \<and>
   Get repo_two_versions \<lparr>ContextInstanceID = 1, ContextVersionID = 2\<rparr> [0x66, 0x6F, 0x6F]
     (Put \<lparr>ContextInstanceID = 1, ContextVersionID = 1\<rparr> [0x66, 0x6F, 0x6F] [0x01] Map.empty) =
     Inr [0x01] \<and>
   Get repo_two_versions \<lparr>ContextInstanceID = 1, ContextVersionID = 2\<rparr> [0x66, 0x6F, 0x6F]
     (Put \<lparr>ContextInstanceID = 1, ContextVersionID = 2\<rparr> [0x66, 0x6F, 0x6F] [0x02]
       (Put \<lparr>ContextInstanceID = 1, ContextVersionID = 1\<rparr> [0x66, 0x6F, 0x6F] [0x01]
          Map.empty)) = Inr [0x02] \<and>
   Get repo_two_versions \<lparr>ContextInstanceID = 1, ContextVersionID = 1\<rparr> [0x66, 0x6F, 0x6F]
     (Put \<lparr>ContextInstanceID = 1, ContextVersionID = 2\<rparr> [0x66, 0x6F, 0x6F] [0x02]
       (Put \<lparr>ContextInstanceID = 1, ContextVersionID = 1\<rparr> [0x66, 0x6F, 0x6F] [0x01]
          Map.empty)) = Inr [0x01] \<and>
   Get repo_two_versions \<lparr>ContextInstanceID = 1, ContextVersionID = 2\<rparr> [0x66, 0x6F, 0x6F]
     (Delete \<lparr>ContextInstanceID = 1, ContextVersionID = 2\<rparr> [0x66, 0x6F, 0x6F]
       (Put \<lparr>ContextInstanceID = 1, ContextVersionID = 2\<rparr> [0x66, 0x6F, 0x6F] [0x02]
         (Put \<lparr>ContextInstanceID = 1, ContextVersionID = 1\<rparr> [0x66, 0x6F, 0x6F] [0x01]
            Map.empty))) = Inl (KindError NotFound ''key not found'') \<and>
   Get repo_two_versions \<lparr>ContextInstanceID = 1, ContextVersionID = 1\<rparr> [0x66, 0x6F, 0x6F]
     (Delete \<lparr>ContextInstanceID = 1, ContextVersionID = 2\<rparr> [0x66, 0x6F, 0x6F]
       (Put \<lparr>ContextInstanceID = 1, ContextVersionID = 2\<rparr> [0x66, 0x6F, 0x6F] [0x02]
         (Put \<lparr>ContextInstanceID = 1, ContextVersionID = 1\<rparr> [0x66, 0x6F, 0x6F] [0x01]
            Map.empty))) = Inr [0x01]"
proof -
  let ?k = "[0x66, 0x6F, 0x6F] :: TKey"
  let ?c1 = "\<lparr>ContextInstanceID = 1, ContextVersionID = 1\<rparr>"
  let ?c2 = "\<lparr>ContextInstanceID = 1, ContextVersionID = 2\<rparr>"
  let ?c3 = "\<lparr>ContextInstanceID = 1, ContextVersionID = 3\<rparr>"
  have none: "stored_at Map.empty i ?k u = None" for i u
    by (simp add: stored_at_def)
  have chain: "parent_versions repo_three_versions 3 = [2]"
    "parent_versions repo_three_versions 2 = [1]"
    by (simp_all add: parent_versions_def repo_three_versions_def List.map_filter_simps)
  have d0: "down_from_3 0 = 3" and d1: "down_from_3 (Suc 0) = 2"
    and d2: "down_from_3 (Suc (Suc 0)) = 1"
    by (simp_all add: down_from_3_def)
  have "(\<forall>j<Suc (Suc 0). stored_at (Put ?c1 ?k [0x01] Map.empty) 1 ?k (down_from_3 j) = None \<and>
      parent_versions repo_three_versions (down_from_3 j) = [down_from_3 (Suc j)]) \<and>
    stored_at (Put ?c1 ?k [0x01] Map.empty) 1 ?k (down_from_3 (Suc (Suc 0))) =
      Some (Written [0x01])"
    by (simp add: All_less_Suc d0 d1 d2 chain stored_at_Put none)
  then have "Get repo_three_versions \<lparr>ContextInstanceID = 1, ContextVersionID = down_from_3 0\<rparr>
      ?k (Put ?c1 ?k [0x01] Map.empty) =
      (case Written [0x01] of Written x \<Rightarrow> Inr x
       | Tombstone \<Rightarrow> Inl (KindError NotFound ''key not found''))"
    by (rule versioned_get [where c = down_from_3 and m = "Suc (Suc 0)",
          THEN conjunct2, THEN conjunct2, THEN conjunct2, THEN conjunct1, THEN mp])
  then have g1: "Get repo_three_versions ?c3 ?k (Put ?c1 ?k [0x01] Map.empty) = Inr [0x01]"
    by (simp add: d0)
  have "(\<forall>j<Suc 0. stored_at (Delete ?c2 ?k (Put ?c1 ?k [0x01] Map.empty)) 1 ?k
        (down_from_3 j) = None \<and>
      parent_versions repo_three_versions (down_from_3 j) = [down_from_3 (Suc j)]) \<and>
    stored_at (Delete ?c2 ?k (Put ?c1 ?k [0x01] Map.empty)) 1 ?k (down_from_3 (Suc 0)) =
      Some Tombstone"
    by (simp add: d0 d1 chain stored_at_Put stored_at_Delete none)
  then have "Get repo_three_versions \<lparr>ContextInstanceID = 1, ContextVersionID = down_from_3 0\<rparr>
      ?k (Delete ?c2 ?k (Put ?c1 ?k [0x01] Map.empty)) =
      (case Tombstone of Written x \<Rightarrow> Inr x
       | Tombstone \<Rightarrow> Inl (KindError NotFound ''key not found''))"
    by (rule versioned_get [where c = down_from_3 and m = "Suc 0",
          THEN conjunct2, THEN conjunct2, THEN conjunct2, THEN conjunct1, THEN mp])
  then have g2: "Get repo_three_versions ?c3 ?k (Delete ?c2 ?k (Put ?c1 ?k [0x01] Map.empty)) =
      Inl (KindError NotFound ''key not found'')"
    by (simp add: d0)
  let ?both = "Put ?c3 ?k [0x02] (Put ?c2 ?k [0x01] Map.empty)"
  have a0: "ancestors_at repo_merge 4 0 = [4]" and a1: "ancestors_at repo_merge 4 (Suc 0) = [2, 3]"
    by (simp_all add: ancestors_at_def parent_versions_def repo_merge_def
        List.map_filter_simps)
  have "(\<forall>n<Suc 0. \<forall>u \<in> set (ancestors_at repo_merge 4 n). stored_at ?both 1 ?k u = None) \<and>
    filter (\<lambda>u. stored_at ?both 1 ?k u \<noteq> None) (ancestors_at repo_merge 4 (Suc 0)) =
      2 # 3 # []"
    by (simp add: a0 a1 stored_at_Put none)
  then have g3: "Get repo_merge \<lparr>ContextInstanceID = 1, ContextVersionID = 4\<rparr> ?k ?both =
      Inl (KindError Conflict ''key held by several ancestors'')"
    by (rule versioned_get [where m = "Suc 0", THEN conjunct2, THEN conjunct1, THEN mp])
  have "\<forall>n. \<forall>u \<in> set (ancestors_at repo_two_versions 2 n). stored_at Map.empty 1 ?k u = None"
    by (simp add: none)
  then have g4: "Get repo_two_versions ?c2 ?k Map.empty =
      Inl (KindError NotFound ''key not found'')"
    by (rule versioned_get [THEN conjunct2, THEN conjunct2, THEN conjunct1, THEN mp])
  have "(1 :: VersionID) \<noteq> 2 \<and> parent_versions repo_two_versions 2 = [1] \<and>
    stored_at Map.empty 1 ?k 2 = None"
    by (simp add: parent_versions_def repo_two_versions_def List.map_filter_simps none)
  then have g5: "Get repo_two_versions ?c2 ?k (Put ?c1 ?k [0x01] Map.empty) = Inr [0x01] \<and>
      Get repo_two_versions ?c2 ?k (Put ?c2 ?k [0x02] (Put ?c1 ?k [0x01] Map.empty)) =
        Inr [0x02] \<and>
      Get repo_two_versions ?c1 ?k (Put ?c2 ?k [0x02] (Put ?c1 ?k [0x01] Map.empty)) =
        Inr [0x01] \<and>
      Get repo_two_versions ?c2 ?k
        (Delete ?c2 ?k (Put ?c2 ?k [0x02] (Put ?c1 ?k [0x01] Map.empty))) =
        Inl (KindError NotFound ''key not found'') \<and>
      Get repo_two_versions ?c1 ?k
        (Delete ?c2 ?k (Put ?c2 ?k [0x02] (Put ?c1 ?k [0x01] Map.empty))) = Inr [0x01]"
    by (rule versioned_get [THEN conjunct2, THEN conjunct2, THEN conjunct2, THEN conjunct2,
          THEN conjunct2, THEN conjunct2, THEN mp])
  from g1 g2 g3 g4 g5 show ?thesis by simp
qed

end
